theory Spec2Isabelle
  imports Complex_Main "HOL-Library.Word"
begin

section \<open>JavaScript strings\<close>

text \<open>
  A JavaScript string is a sequence of UTF-16 code units, so that the non-ASCII
  constants of the worker (the bullet U+2022, the dashes, the zero-width characters) are
  single elements, as they are for \<^verbatim>\<open>String.prototype.length\<close> and for the regular
  expression engine. \<open>js\<close> turns an ASCII literal into such a string.
\<close>

type_synonym jschar = "16 word"
type_synonym jsstring = "jschar list"

definition js :: "string \<Rightarrow> jsstring" where
  "js s = map of_char s"

text \<open>\<^verbatim>\<open>s.slice(a, b)\<close> for \<open>a \<le> b \<le> length s\<close>.\<close>

definition substring :: "jsstring \<Rightarrow> nat \<Rightarrow> nat \<Rightarrow> jsstring" where
  "substring s a b = take (b - a) (drop a s)"

text \<open>\<^verbatim>\<open>s.startsWith(t)\<close> and \<^verbatim>\<open>s.includes(t)\<close>.\<close>

fun starts_with :: "jsstring \<Rightarrow> jsstring \<Rightarrow> bool" where
  "starts_with s [] = True"
| "starts_with [] (y # ys) = False"
| "starts_with (x # xs) (y # ys) = (x = y \<and> starts_with xs ys)"

fun str_includes :: "jsstring \<Rightarrow> jsstring \<Rightarrow> bool" where
  "str_includes [] t = (t = [])"
| "str_includes (x # xs) t = (starts_with (x # xs) t \<or> str_includes xs t)"

text \<open>
  \<^verbatim>\<open>toLowerCase\<close> on the ASCII range. The two code units outside ASCII whose lower case
  contains an ASCII letter (U+212A gives k, U+0130 gives i and U+0307) are left as they
  are; the worker only searches the lowered text for \<^verbatim>\<open>user\<close> and \<^verbatim>\<open>human\<close>, which
  contain neither letter, and otherwise lowers ASCII labels.
\<close>

definition lower :: "jschar \<Rightarrow> jschar" where
  "lower c = (if 65 \<le> c \<and> c \<le> 90 then c + 32 else c)"

definition toLowerCase :: "jsstring \<Rightarrow> jsstring" where
  "toLowerCase s = map lower s"

text \<open>White space and line terminators of ECMAScript (the class \<^verbatim>\<open>\s\<close>, and what \<^verbatim>\<open>trim\<close> strips).\<close>

definition is_line_terminator :: "jschar \<Rightarrow> bool" where
  "is_line_terminator c = (c = 10 \<or> c = 13 \<or> c = 8232 \<or> c = 8233)"

definition is_space :: "jschar \<Rightarrow> bool" where
  "is_space c = ((9 \<le> c \<and> c \<le> 13) \<or> c = 32 \<or> c = 160 \<or> c = 5760 \<or>
     (8192 \<le> c \<and> c \<le> 8202) \<or> c = 8232 \<or> c = 8233 \<or> c = 8239 \<or> c = 8287 \<or>
     c = 12288 \<or> c = 65279)"

definition is_digit :: "jschar \<Rightarrow> bool" where
  "is_digit c = (48 \<le> c \<and> c \<le> 57)"

definition is_word :: "jschar \<Rightarrow> bool" where
  "is_word c = ((97 \<le> c \<and> c \<le> 122) \<or> (65 \<le> c \<and> c \<le> 90) \<or> is_digit c \<or> c = 95)"

definition trim :: "jsstring \<Rightarrow> jsstring" where
  "trim s = rev (dropWhile is_space (rev (dropWhile is_space s)))"

section \<open>Regular expressions\<close>

text \<open>
  The fragment of ECMAScript regular expressions that the worker uses, with the
  backtracking semantics of the language: a matcher returns every way to match from a
  state, in the order in which the backtracking engine tries them, so that the head of
  the list is the match the engine reports. A state is the position in the subject and
  the captures made so far, the latest first.
\<close>

datatype regex =
    Epsilon
  | Chr "jschar \<Rightarrow> bool"
  | Seq regex regex
  | Alt regex regex
  | Star regex
  | Lazy regex
  | Grp nat regex
  | Look regex
  | Bol
  | Eol
  | Bos
  | Eos

type_synonym mstate = "nat \<times> (nat \<times> nat \<times> nat) list"

text \<open>
  Greedy and lazy iteration. An iteration that consumes nothing is rejected, as in
  ECMAScript, so every iteration moves the position forward and at most
  \<open>length s - p\<close> iterations fit from position \<open>p\<close>: the counter is exact, not a
  bound that could cut a match short (\<open>star_counter_exact\<close> and
  \<open>lazy_counter_exact\<close> below).
\<close>

primrec star :: "(mstate \<Rightarrow> mstate list) \<Rightarrow> nat \<Rightarrow> mstate \<Rightarrow> mstate list" where
  "star f 0 st = [st]"
| "star f (Suc n) st =
     concat (map (star f n) (filter (\<lambda>st'. fst st < fst st') (f st))) @ [st]"

primrec lazy :: "(mstate \<Rightarrow> mstate list) \<Rightarrow> nat \<Rightarrow> mstate \<Rightarrow> mstate list" where
  "lazy f 0 st = [st]"
| "lazy f (Suc n) st =
     st # concat (map (lazy f n) (filter (\<lambda>st'. fst st < fst st') (f st)))"

primrec rm :: "regex \<Rightarrow> jsstring \<Rightarrow> mstate \<Rightarrow> mstate list" where
  "rm Epsilon s st = [st]"
| "rm (Chr P) s st =
     (if fst st < length s \<and> P (s ! fst st) then [(Suc (fst st), snd st)] else [])"
| "rm (Seq a b) s st = concat (map (rm b s) (rm a s st))"
| "rm (Alt a b) s st = rm a s st @ rm b s st"
| "rm (Star a) s st = star (rm a s) (length s - fst st) st"
| "rm (Lazy a) s st = lazy (rm a s) (length s - fst st) st"
| "rm (Grp i a) s st = map (\<lambda>st'. (fst st', (i, fst st, fst st') # snd st')) (rm a s st)"
| "rm (Look a) s st = (case rm a s st of [] \<Rightarrow> [] | st' # _ \<Rightarrow> [(fst st, snd st')])"
| "rm Bol s st = (if fst st = 0 \<or> is_line_terminator (s ! (fst st - 1)) then [st] else [])"
| "rm Eol s st =
     (if length s \<le> fst st \<or> is_line_terminator (s ! fst st) then [st] else [])"
| "rm Bos s st = (if fst st = 0 then [st] else [])"
| "rm Eos s st = (if length s \<le> fst st then [st] else [])"

definition seqs :: "regex list \<Rightarrow> regex" where
  "seqs rs = foldr Seq rs Epsilon"

definition lit :: "jsstring \<Rightarrow> regex" where
  "lit t = seqs (map (\<lambda>c. Chr (\<lambda>x. x = c)) t)"

text \<open>
  A literal under the \<^verbatim>\<open>i\<close> flag (without \<^verbatim>\<open>u\<close>). The engine compares the upper
  cases, and never maps a code unit above 127 to one below 128, so an ASCII letter of
  the pattern matches exactly its two ASCII cases.
\<close>

definition liti :: "jsstring \<Rightarrow> regex" where
  "liti t = seqs (map (\<lambda>c. Chr (\<lambda>x. lower x = lower c)) t)"

definition any_char :: regex where
  "any_char = Chr (\<lambda>_. True)"

definition dot :: regex where
  "dot = Chr (\<lambda>c. \<not> is_line_terminator c)"

definition notc :: "jschar \<Rightarrow> regex" where
  "notc c = Chr (\<lambda>x. x \<noteq> c)"

definition plus_re :: "regex \<Rightarrow> regex" where
  "plus_re a = Seq a (Star a)"

definition opt :: "regex \<Rightarrow> regex" where
  "opt a = Alt a Epsilon"

primrec rep :: "nat \<Rightarrow> regex \<Rightarrow> regex" where
  "rep 0 a = Epsilon"
| "rep (Suc n) a = Seq a (rep n a)"

text \<open>\<^verbatim>\<open>a{n,}\<close> and \<^verbatim>\<open>a{0,2}\<close>.\<close>

definition at_least :: "nat \<Rightarrow> regex \<Rightarrow> regex" where
  "at_least n a = Seq (rep n a) (Star a)"

definition upto2 :: "regex \<Rightarrow> regex" where
  "upto2 a = opt (Seq a (opt a))"

definition matchAt :: "regex \<Rightarrow> jsstring \<Rightarrow> nat \<Rightarrow> mstate option" where
  "matchAt r s p = (case rm r s (p, []) of [] \<Rightarrow> None | st # _ \<Rightarrow> Some st)"

text \<open>
  \<^verbatim>\<open>s.replace(r, rep)\<close> for a regular expression with the \<^verbatim>\<open>g\<close> flag and a
  replacement without \<^verbatim>\<open>$\<close>. The scan visits the positions \<open>p = 0 .. length s\<close> in
  order; \<open>nxt\<close> is \<^verbatim>\<open>lastIndex\<close>: positions below it lie inside the previous match.
  After an empty match \<^verbatim>\<open>lastIndex\<close> moves one further and the code unit at \<open>p\<close> is kept.
\<close>

function replace_from :: "regex \<Rightarrow> jsstring \<Rightarrow> jsstring \<Rightarrow> nat \<Rightarrow> nat \<Rightarrow> jsstring" where
  "replace_from r t s p nxt =
     (if length s < p then []
      else if p < nxt then replace_from r t s (Suc p) nxt
      else (case matchAt r s p of
              None \<Rightarrow> (if p < length s then [s ! p] else []) @ replace_from r t s (Suc p) nxt
            | Some st \<Rightarrow>
                if fst st \<le> p
                then t @ (if p < length s then [s ! p] else []) @ replace_from r t s (Suc p) (Suc p)
                else t @ replace_from r t s (Suc p) (fst st)))"
  by pat_completeness auto
termination
  by (relation "measure (\<lambda>(r, t, s, p, nxt). Suc (length s) - p)") auto

declare replace_from.simps [simp del]

definition replace_g :: "regex \<Rightarrow> jsstring \<Rightarrow> jsstring \<Rightarrow> jsstring" where
  "replace_g r t s = replace_from r t s 0 0"

text \<open>\<^verbatim>\<open>s.replace(r, rep)\<close> without the \<^verbatim>\<open>g\<close> flag: the first match only.\<close>

function find_from :: "regex \<Rightarrow> jsstring \<Rightarrow> nat \<Rightarrow> (nat \<times> mstate) option" where
  "find_from r s p =
     (if length s < p then None
      else (case matchAt r s p of
              None \<Rightarrow> find_from r s (Suc p)
            | Some st \<Rightarrow> Some (p, st)))"
  by pat_completeness auto
termination
  by (relation "measure (\<lambda>(r, s, p). Suc (length s) - p)") auto

declare find_from.simps [simp del]

definition replace_1 :: "regex \<Rightarrow> jsstring \<Rightarrow> jsstring \<Rightarrow> jsstring" where
  "replace_1 r t s =
     (case find_from r s 0 of
        None \<Rightarrow> s
      | Some (p, st) \<Rightarrow> take p s @ t @ drop (fst st) s)"

text \<open>
  \<^verbatim>\<open>[...s.matchAll(r)]\<close> for a regular expression with the \<^verbatim>\<open>g\<close> flag: each match with
  its start, its end and its captures.
\<close>

function matchAll_from :: "regex \<Rightarrow> jsstring \<Rightarrow> nat \<Rightarrow> nat \<Rightarrow> (nat \<times> mstate) list" where
  "matchAll_from r s p nxt =
     (if length s < p then []
      else if p < nxt then matchAll_from r s (Suc p) nxt
      else (case matchAt r s p of
              None \<Rightarrow> matchAll_from r s (Suc p) nxt
            | Some st \<Rightarrow>
                (p, st) # matchAll_from r s (Suc p) (if fst st \<le> p then Suc p else fst st)))"
  by pat_completeness auto
termination
  by (relation "measure (\<lambda>(r, s, p, nxt). Suc (length s) - p)") auto

declare matchAll_from.simps [simp del]

definition matchAll :: "regex \<Rightarrow> jsstring \<Rightarrow> (nat \<times> mstate) list" where
  "matchAll r s = matchAll_from r s 0 0"

text \<open>\<^verbatim>\<open>match[i]\<close>: the text of the whole match or of a capture, \<open>None\<close> for \<^verbatim>\<open>undefined\<close>.\<close>

definition capture :: "jsstring \<Rightarrow> nat \<times> mstate \<Rightarrow> nat \<Rightarrow> jsstring option" where
  "capture s m i =
     (if i = 0 then Some (substring s (fst m) (fst (snd m)))
      else (case filter (\<lambda>c. fst c = i) (snd (snd m)) of
              [] \<Rightarrow> None
            | c # _ \<Rightarrow> Some (substring s (fst (snd c)) (snd (snd c)))))"

section \<open>The markup-preserving sanitizer\<close>

text \<open>The pattern \<^verbatim>\<open>/<tag[^>]*>[\s\S]*?<\/tag>/gi\<close>.\<close>

definition block_re :: "string \<Rightarrow> regex" where
  "block_re tag = seqs [liti (js (CHR ''<'' # tag)), Star (notc 62), lit (js ''>''),
     Lazy any_char, liti (js (''</'' @ tag @ ''>''))]"

text \<open>\<^verbatim>\<open>/\s+on\w+="[^"]*"/gi\<close> for the quote \<open>q = 34\<close>, \<^verbatim>\<open>/\s+on\w+='[^']*'/gi\<close> for \<open>q = 39\<close>.\<close>

definition handler_re :: "jschar \<Rightarrow> regex" where
  "handler_re q = seqs [plus_re (Chr is_space), liti (js ''on''), plus_re (Chr is_word),
     lit (js ''=''), lit [q], Star (notc q), lit [q]]"

definition sanitizeHtmlContent :: "jsstring \<Rightarrow> jsstring" where
  "sanitizeHtmlContent html =
     (if html = [] then []
      else
        (replace_g (liti (js ''javascript:'')) []
        (replace_g (handler_re 39) []
        (replace_g (handler_re 34) []
        (replace_g (block_re ''noscript'') []
        (replace_g (block_re ''iframe'') []
        (replace_g (block_re ''style'') []
        (replace_g (block_re ''script'') [] html))))))))"


section \<open>The markup-stripping cleaner\<close>

text \<open>\<^verbatim>\<open>/^-{m,}\d{n,}-{0,2}$/gm\<close>, the multipart boundary line.\<close>

definition boundary_re :: "nat \<Rightarrow> nat \<Rightarrow> regex" where
  "boundary_re m n = seqs [Bol, at_least m (lit (js ''-'')), at_least n (Chr is_digit),
     upto2 (lit (js ''-'')), Eol]"

text \<open>\<^verbatim>\<open>/^prefix.*?$/gm\<close> and \<^verbatim>\<open>/^prefix.*$/gm\<close>.\<close>

definition line_lazy_re :: "string \<Rightarrow> regex" where
  "line_lazy_re prefix = seqs [Bol, lit (js prefix), Lazy dot, Eol]"

definition line_re :: "string \<Rightarrow> regex" where
  "line_re prefix = seqs [Bol, lit (js prefix), Star dot, Eol]"

text \<open>The steps of \<^verbatim>\<open>cleanHtmlContent\<close>, in the order of the source.\<close>

definition clean_steps :: "(jsstring \<Rightarrow> jsstring) list" where
  "clean_steps =
    [replace_g (boundary_re 10 10) [],
     replace_g (line_lazy_re ''Content-'') [],
     replace_g (line_lazy_re ''boundary='') [],
     replace_g (block_re ''script'') [],
     replace_g (block_re ''style'') [],
     replace_g (block_re ''iframe'') [],
     replace_g (block_re ''noscript'') [],
     replace_g (seqs [liti (js ''<br''), Star (Chr is_space), opt (lit (js ''/'')), lit (js ''>'')]) [10],
     replace_g (liti (js ''</p>'')) [10, 10],
     replace_g (liti (js ''</div>'')) [10],
     replace_g (seqs [liti (js ''</h''), Chr (\<lambda>c. 49 \<le> c \<and> c \<le> 54), lit (js ''>'')]) [10, 10],
     replace_g (seqs [liti (js ''<li''), Star (notc 62), lit (js ''>'')]) [8226, 32],
     replace_g (liti (js ''</li>'')) [10],
     replace_g (seqs [lit (js ''<''), Star (notc 62), lit (js ''>'')]) [],
     replace_g (lit (js ''&nbsp;'')) [32],
     replace_g (lit (js ''&lt;'')) [60],
     replace_g (lit (js ''&gt;'')) [62],
     replace_g (lit (js ''&amp;'')) [38],
     replace_g (lit (js ''&quot;'')) [34],
     replace_g (lit (js ''&#x27;'')) [39],
     replace_g (lit (js ''&#x2F;'')) [47],
     replace_g (lit (js ''&#39;'')) [39],
     replace_g (lit (js ''&hellip;'')) [46, 46, 46],
     replace_g (lit (js ''&mdash;'')) [8212],
     replace_g (lit (js ''&ndash;'')) [8211],
     replace_g (lit [13, 10]) [10],
     replace_g (lit [13]) [10],
     replace_g (at_least 3 (lit [10])) [10, 10],
     replace_g (plus_re (Chr (\<lambda>c. c = 32 \<or> c = 9))) [32],
     replace_g (Seq Bol (plus_re (lit [32]))) [],
     replace_g (Seq (plus_re (lit [32])) Eol) [],
     replace_1 (Seq Bos (plus_re (lit [10]))) [],
     replace_1 (Seq (plus_re (lit [10])) Eos) [],
     replace_g (Chr (\<lambda>c. (8203 \<le> c \<and> c \<le> 8205) \<or> c = 65279)) [],
     replace_g (plus_re (Chr (\<lambda>c. is_space c \<and> c \<noteq> 10))) [32],
     trim]"

definition cleanHtmlContent :: "jsstring \<Rightarrow> jsstring" where
  "cleanHtmlContent content =
     (if content = [] then [] else foldl (\<lambda>s f. f s) content clean_steps)"

section \<open>The content normalizer\<close>

definition preprocess_steps :: "(jsstring \<Rightarrow> jsstring) list" where
  "preprocess_steps =
    [replace_g (boundary_re 20 15) [],
     replace_g (line_re ''Content-Disposition:'') [],
     replace_g (line_re ''Content-Type:'') [],
     replace_g (line_re ''Content-Length:'') [],
     replace_g (line_re ''boundary='') [],
     replace_g (seqs [Bol, lit (js ''name=''), lit [34], Lazy dot, lit [34], Eol]) [],
     replace_g (seqs [Bol, Star (Chr is_space), Eol]) [],
     replace_g (at_least 3 (lit [10])) [10, 10],
     trim]"

section \<open>JSON\<close>

text \<open>
  \<^verbatim>\<open>JSON.parse\<close> is part of the language, not of the worker. It is modelled by a
  recursive-descent parser of the JSON grammar (ECMA-404). A number is kept as the exact
  rational its literal denotes. An object keeps its members in source order; a later
  member with the same key overrides an earlier one when a property is read.
\<close>

datatype json =
    JNull
  | JBool bool
  | JNum rat
  | JStr jsstring
  | JArr "json list"
  | JObj "(jsstring \<times> json) list"

definition json_ws :: "jschar \<Rightarrow> bool" where
  "json_ws c = (c = 32 \<or> c = 9 \<or> c = 10 \<or> c = 13)"

definition skip_ws :: "jsstring \<Rightarrow> jsstring" where
  "skip_ws s = dropWhile json_ws s"

definition hex_val :: "jschar \<Rightarrow> nat option" where
  "hex_val c =
     (if 48 \<le> c \<and> c \<le> 57 then Some (unat c - 48)
      else if 97 \<le> c \<and> c \<le> 102 then Some (unat c - 87)
      else if 65 \<le> c \<and> c \<le> 70 then Some (unat c - 55)
      else None)"

text \<open>The character an escape letter stands for, \<open>None\<close> for an unknown escape.\<close>

definition escape_char :: "jschar \<Rightarrow> jschar option" where
  "escape_char e =
     (if e = 34 then Some 34 else if e = 92 then Some 92 else if e = 47 then Some 47
      else if e = 98 then Some 8 else if e = 102 then Some 12 else if e = 110 then Some 10
      else if e = 114 then Some 13 else if e = 116 then Some 9 else None)"

text \<open>The rest of a string literal after its opening quote: the text and what follows the closing quote.\<close>

fun string_body :: "jsstring \<Rightarrow> (jsstring \<times> jsstring) option" where
  "string_body [] = None"
| "string_body (c # cs) =
     (if c = 34 then Some ([], cs)
      else if c = 92 then
        (case cs of
           [] \<Rightarrow> None
         | e # es \<Rightarrow>
             if e = 117 then
               (case es of
                  h1 # h2 # h3 # h4 # rest \<Rightarrow>
                    (case (hex_val h1, hex_val h2, hex_val h3, hex_val h4) of
                       (Some a, Some b, Some c', Some d) \<Rightarrow>
                         map_option (\<lambda>(t, r). (of_nat (4096 * a + 256 * b + 16 * c' + d) # t, r))
                           (string_body rest)
                     | _ \<Rightarrow> None)
                | _ \<Rightarrow> None)
             else
               (case escape_char e of
                  None \<Rightarrow> None
                | Some x \<Rightarrow> map_option (\<lambda>(t, r). (x # t, r)) (string_body es)))
      else if c < 32 then None
      else map_option (\<lambda>(t, r). (c # t, r)) (string_body cs))"

definition digits_val :: "jsstring \<Rightarrow> nat" where
  "digits_val ds = foldl (\<lambda>a c. 10 * a + (unat c - 48)) 0 ds"

text \<open>
  A number literal: \<^verbatim>\<open>-? (0 | [1-9][0-9]*) (. [0-9]+)? ([eE] [+-]? [0-9]+)?\<close>,
  with its value and the rest of the input.
\<close>

definition number_exp :: "jsstring \<Rightarrow> (int \<times> jsstring) option" where
  "number_exp s =
     (case s of
        [] \<Rightarrow> Some (0, s)
      | c # cs \<Rightarrow>
          if c = 101 \<or> c = 69 then
            (let neg = (case cs of [] \<Rightarrow> False | d # _ \<Rightarrow> d = 45);
                 ds = (case cs of [] \<Rightarrow> [] | d # r \<Rightarrow> if d = 45 \<or> d = 43 then r else cs);
                 es = takeWhile is_digit ds
             in if es = [] then None
                else Some ((if neg then - int (digits_val es) else int (digits_val es)),
                           dropWhile is_digit ds))
          else Some (0, s))"

definition number_frac :: "jsstring \<Rightarrow> (rat \<times> jsstring) option" where
  "number_frac s =
     (case s of
        [] \<Rightarrow> Some (0, s)
      | c # cs \<Rightarrow>
          if c = 46 then
            (let fs = takeWhile is_digit cs
             in if fs = [] then None
                else Some (of_nat (digits_val fs) / 10 ^ length fs, dropWhile is_digit cs))
          else Some (0, s))"

definition number_int :: "jsstring \<Rightarrow> (nat \<times> jsstring) option" where
  "number_int s =
     (case s of
        [] \<Rightarrow> None
      | c # cs \<Rightarrow>
          if c = 48 then Some (0, cs)
          else if is_digit c then Some (digits_val (takeWhile is_digit s), dropWhile is_digit s)
          else None)"

definition parse_number :: "jsstring \<Rightarrow> (rat \<times> jsstring) option" where
  "parse_number s =
     (let neg = (case s of [] \<Rightarrow> False | c # _ \<Rightarrow> c = 45);
          s1 = (if neg then tl s else s)
      in case number_int s1 of
           None \<Rightarrow> None
         | Some (i, s2) \<Rightarrow>
             (case number_frac s2 of
                None \<Rightarrow> None
              | Some (f, s3) \<Rightarrow>
                  (case number_exp s3 of
                     None \<Rightarrow> None
                   | Some (e, s4) \<Rightarrow>
                       Some ((if neg then - 1 else 1) * (of_nat i + f) *
                             (if 0 \<le> e then 10 ^ nat e else 1 / 10 ^ nat (- e)), s4))))"

text \<open>
  Values, array elements and object members. The first argument bounds the number of
  nested calls; \<open>JSON_parse\<close> starts with \<open>2 * length s + 2\<close>, which no input
  exhausts (\<open>JSON_parse_bound\<close> below): a call on elements or members is made after at
  least one more character has been read than the call on a value that precedes it.
\<close>

fun parse_value :: "nat \<Rightarrow> jsstring \<Rightarrow> (json \<times> jsstring) option"
  and parse_elements :: "nat \<Rightarrow> jsstring \<Rightarrow> (json list \<times> jsstring) option"
  and parse_members :: "nat \<Rightarrow> jsstring \<Rightarrow> ((jsstring \<times> json) list \<times> jsstring) option"
where
  "parse_value 0 s = None"
| "parse_value (Suc n) s =
     (case skip_ws s of
        [] \<Rightarrow> None
      | c # cs \<Rightarrow>
          if c = 123 then
            (case skip_ws cs of
               [] \<Rightarrow> None
             | d # ds \<Rightarrow>
                 if d = 125 then Some (JObj [], ds)
                 else map_option (\<lambda>(ms, r). (JObj ms, r)) (parse_members n cs))
          else if c = 91 then
            (case skip_ws cs of
               [] \<Rightarrow> None
             | d # ds \<Rightarrow>
                 if d = 93 then Some (JArr [], ds)
                 else map_option (\<lambda>(vs, r). (JArr vs, r)) (parse_elements n cs))
          else if c = 34 then map_option (\<lambda>(t, r). (JStr t, r)) (string_body cs)
          else if starts_with (c # cs) (js ''true'') then Some (JBool True, drop 4 (c # cs))
          else if starts_with (c # cs) (js ''false'') then Some (JBool False, drop 5 (c # cs))
          else if starts_with (c # cs) (js ''null'') then Some (JNull, drop 4 (c # cs))
          else map_option (\<lambda>(x, r). (JNum x, r)) (parse_number (c # cs)))"
| "parse_elements 0 s = None"
| "parse_elements (Suc n) s =
     (case parse_value n s of
        None \<Rightarrow> None
      | Some (v, r) \<Rightarrow>
          (case skip_ws r of
             [] \<Rightarrow> None
           | c # cs \<Rightarrow>
               if c = 44 then map_option (\<lambda>(vs, r'). (v # vs, r')) (parse_elements n cs)
               else if c = 93 then Some ([v], cs)
               else None))"
| "parse_members 0 s = None"
| "parse_members (Suc n) s =
     (case skip_ws s of
        [] \<Rightarrow> None
      | q # qs \<Rightarrow>
          if q = 34 then
            (case string_body qs of
               None \<Rightarrow> None
             | Some (k, r1) \<Rightarrow>
                 (case skip_ws r1 of
                    [] \<Rightarrow> None
                  | c # cs \<Rightarrow>
                      if c = 58 then
                        (case parse_value n cs of
                           None \<Rightarrow> None
                         | Some (v, r2) \<Rightarrow>
                             (case skip_ws r2 of
                                [] \<Rightarrow> None
                              | d # ds \<Rightarrow>
                                  if d = 44 then
                                    map_option (\<lambda>(ms, r'). ((k, v) # ms, r')) (parse_members n ds)
                                  else if d = 125 then Some ([(k, v)], ds)
                                  else None))
                      else None))
          else None)"

definition JSON_parse :: "jsstring \<Rightarrow> json option" where
  "JSON_parse s =
     (case parse_value (2 * length s + 2) s of
        None \<Rightarrow> None
      | Some (v, r) \<Rightarrow> if skip_ws r = [] then Some v else None)"

text \<open>
  Reading a property of a parsed value. \<open>None\<close> is \<^verbatim>\<open>undefined\<close>: only an object
  has own properties under the keys the worker reads, and none of them is inherited
  from a prototype. Reading a property of \<^verbatim>\<open>null\<close> throws; the callers test for it.
\<close>

definition get_prop :: "json \<Rightarrow> jsstring \<Rightarrow> json option" where
  "get_prop v k = (case v of JObj ms \<Rightarrow> map_of (rev ms) k | _ \<Rightarrow> None)"

text \<open>
  Truthiness of a value. A number is falsy when it is zero as a double, that is, when
  the literal rounds to zero: its magnitude is at most \<open>2 ^ - 1075\<close>.
\<close>

definition truthy :: "json option \<Rightarrow> bool" where
  "truthy v =
     (case v of
        None \<Rightarrow> False
      | Some JNull \<Rightarrow> False
      | Some (JBool b) \<Rightarrow> b
      | Some (JNum x) \<Rightarrow> 1 < \<bar>x\<bar> * 2 ^ 1075
      | Some (JStr t) \<Rightarrow> t \<noteq> []
      | Some (JArr _) \<Rightarrow> True
      | Some (JObj _) \<Rightarrow> True)"

definition truthy_str :: "jsstring option \<Rightarrow> bool" where
  "truthy_str v = (case v of None \<Rightarrow> False | Some t \<Rightarrow> t \<noteq> [])"

text \<open>
  The three string functions applied to a JavaScript value. Each starts with the guard
  \<^verbatim>\<open>if (!x || typeof x !== 'string') return ''\<close>.
\<close>

definition preprocessContent :: "json option \<Rightarrow> jsstring" where
  "preprocessContent content =
     (case content of
        Some (JStr t) \<Rightarrow> if t = [] then [] else foldl (\<lambda>s f. f s) t preprocess_steps
      | _ \<Rightarrow> [])"

definition sanitize_value :: "json option \<Rightarrow> jsstring" where
  "sanitize_value v = (case v of Some (JStr t) \<Rightarrow> sanitizeHtmlContent t | _ \<Rightarrow> [])"

section \<open>Numbers as text\<close>

definition digit_val :: "jschar \<Rightarrow> nat" where
  "digit_val c =
     (if 48 \<le> c \<and> c \<le> 57 then unat c - 48
      else if 97 \<le> c \<and> c \<le> 122 then unat c - 87
      else if 65 \<le> c \<and> c \<le> 90 then unat c - 55
      else 36)"

text \<open>
  \<^verbatim>\<open>parseInt(str)\<close> without a radix: leading white space, a sign, an optional
  \<^verbatim>\<open>0x\<close>, then the longest run of digits; \<open>None\<close> is \<^verbatim>\<open>NaN\<close>. The result is the
  exact integer; JavaScript rounds it to a double above \<open>2 ^ 53\<close>, which no value
  written by the worker reaches.
\<close>

definition parseInt :: "jsstring \<Rightarrow> int option" where
  "parseInt str =
     (let s0 = dropWhile is_space str;
          neg = (case s0 of [] \<Rightarrow> False | c # _ \<Rightarrow> c = 45);
          s1 = (case s0 of [] \<Rightarrow> [] | c # cs \<Rightarrow> if c = 45 \<or> c = 43 then cs else s0);
          hex = (starts_with s1 (js ''0x'') \<or> starts_with s1 (js ''0X''));
          radix = (if hex then 16 else 10);
          s2 = (if hex then drop 2 s1 else s1);
          z = takeWhile (\<lambda>c. digit_val c < radix) s2
      in if z = [] then None
         else Some ((if neg then - 1 else 1) *
                    int (foldl (\<lambda>a c. radix * a + digit_val c) 0 z)))"

text \<open>\<^verbatim>\<open>parseInt(v)\<close> for a value read from the store: \<^verbatim>\<open>null\<close> is first turned into the text \<^verbatim>\<open>null\<close>.\<close>

definition parseInt_value :: "jsstring option \<Rightarrow> int option" where
  "parseInt_value v = (case v of None \<Rightarrow> parseInt (js ''null'') | Some t \<Rightarrow> parseInt t)"

function decimal :: "nat \<Rightarrow> jsstring" where
  "decimal n = (if n < 10 then [of_nat (48 + n)] else decimal (n div 10) @ [of_nat (48 + n mod 10)])"
  by pat_completeness auto
termination
  by (relation "measure id") auto

declare decimal.simps [simp del]

text \<open>\<^verbatim>\<open>String(n)\<close> for an integer.\<close>

definition numToString :: "int \<Rightarrow> jsstring" where
  "numToString i = (if i < 0 then 45 # decimal (nat (- i)) else decimal (nat i))"

section \<open>The key-value store\<close>

text \<open>
  The namespace \<^verbatim>\<open>env.sharegpt\<close>, and a trace of what a request did: every read and
  write of the store and every call of the parser, the latest first. The expiry of a key
  is recorded with the write; time does not pass during a request.
\<close>

datatype event =
    Get jsstring
  | Put jsstring jsstring "nat option"
  | Parse jsstring

record env =
  sharegpt :: "jsstring \<Rightarrow> jsstring option"
  trace :: "event list"

definition kv_get :: "env \<Rightarrow> jsstring \<Rightarrow> jsstring option" where
  "kv_get e k = sharegpt e k"

definition did_get :: "env \<Rightarrow> jsstring \<Rightarrow> env" where
  "did_get e k = e\<lparr>trace := Get k # trace e\<rparr>"

definition kv_put :: "env \<Rightarrow> jsstring \<Rightarrow> jsstring \<Rightarrow> nat option \<Rightarrow> env" where
  "kv_put e k v ttl = e\<lparr>sharegpt := (sharegpt e)(k \<mapsto> v), trace := Put k v ttl # trace e\<rparr>"

datatype js_error =
    RateLimitExceeded
  | FailedToGenerateUniqueId
  | SyntaxError
  | TypeError

section \<open>The ID allocator\<close>

definition chars :: jsstring where
  "chars = js ''abcdefghijkmnpqrstuvwxyzABCDEFGHJKMNPQRSTUVWXYZ23456789''"

definition maxAttempts :: nat where
  "maxAttempts = 10"

text \<open>
  \<^verbatim>\<open>chars[Math.floor(r * chars.length)]\<close> appended to a string, for the value \<open>r\<close> that
  \<^verbatim>\<open>Math.random()\<close> returned; an index outside the string appends the text
  \<^verbatim>\<open>undefined\<close>.
\<close>

definition pick :: "rat \<Rightarrow> jsstring" where
  "pick r =
     (let i = \<lfloor>r * of_nat (length chars)\<rfloor>
      in if 0 \<le> i \<and> i < int (length chars) then [chars ! nat i] else js ''undefined'')"

text \<open>
  The candidate of attempt number \<open>a\<close>. \<open>rnd k\<close> is what the \<open>k\<close>-th call of
  \<^verbatim>\<open>Math.random()\<close> returns; every attempt makes eight calls.
\<close>

definition candidate :: "(nat \<Rightarrow> rat) \<Rightarrow> nat \<Rightarrow> jsstring" where
  "candidate rnd a = concat (map (\<lambda>i. pick (rnd (8 * a + i))) [0..<8])"

function generate_loop :: "(nat \<Rightarrow> rat) \<Rightarrow> env \<Rightarrow> nat \<Rightarrow> (js_error + jsstring) \<times> env" where
  "generate_loop rnd e attempts =
     (if attempts < maxAttempts then
        (if \<not> truthy_str (kv_get e (candidate rnd attempts))
         then (Inr (candidate rnd attempts), did_get e (candidate rnd attempts))
         else generate_loop rnd (did_get e (candidate rnd attempts)) (Suc attempts))
      else (Inl FailedToGenerateUniqueId, e))"
  by pat_completeness auto
termination
  by (relation "measure (\<lambda>(rnd, e, attempts). maxAttempts - attempts)") auto

declare generate_loop.simps [simp del]

definition generateUniqueId :: "(nat \<Rightarrow> rat) \<Rightarrow> env \<Rightarrow> (js_error + jsstring) \<times> env" where
  "generateUniqueId rnd e = generate_loop rnd e 0"

section \<open>The rate limiter\<close>

definition rate_key :: "jsstring \<Rightarrow> jsstring" where
  "rate_key ip = js ''rate_limit:'' @ ip"

definition limit :: int where
  "limit = 10"

definition checkRateLimit :: "env \<Rightarrow> jsstring \<Rightarrow> (js_error + unit) \<times> env" where
  "checkRateLimit e ip =
     (let key = rate_key ip;
          current = kv_get e key;
          e1 = did_get e key
      in if truthy_str current \<and> (case parseInt_value current of None \<Rightarrow> False | Some n \<Rightarrow> limit \<le> n)
         then (Inl RateLimitExceeded, e1)
         else
           (let newCount = (case parseInt_value current of None \<Rightarrow> 0 | Some n \<Rightarrow> n) + 1
            in (Inr (), kv_put e1 key (numToString newCount) (Some 3600))))"

section \<open>The parse cascade\<close>

record message =
  role :: jsstring
  content :: jsstring

text \<open>
  The object a parser returns. The field \<^verbatim>\<open>messageCount\<close> is absent (\<open>None\<close>) from
  the objects built in the \<^verbatim>\<open>catch\<close> blocks; \<^verbatim>\<open>error\<close> is present only there.
\<close>

record parse_result =
  messages :: "message list"
  format :: jsstring
  messageCount :: "nat option"
  error :: "js_error option"

definition from_ok :: "jsstring \<Rightarrow> bool" where
  "from_ok f = (f = js ''human'' \<or> f = js ''gpt'' \<or> f = js ''user'' \<or> f = js ''assistant'')"

text \<open>The callback of \<^verbatim>\<open>data.every\<close>.\<close>

definition valid_item :: "json \<Rightarrow> bool" where
  "valid_item item =
     (truthy (Some item) \<and>
      (case item of
         JObj ms \<Rightarrow>
           (case get_prop item (js ''from'') of
              Some (JStr f) \<Rightarrow>
                (case get_prop item (js ''value'') of
                   Some (JStr v) \<Rightarrow> from_ok f
                 | _ \<Rightarrow> False)
            | _ \<Rightarrow> False)
       | JArr vs \<Rightarrow> False
       | _ \<Rightarrow> False))"

definition isValidConversationJSON :: "jsstring \<Rightarrow> bool" where
  "isValidConversationJSON input =
     (case JSON_parse input of
        None \<Rightarrow> False
      | Some (JArr items) \<Rightarrow> items \<noteq> [] \<and> list_all valid_item items
      | Some _ \<Rightarrow> False)"

text \<open>The fallback object of a \<^verbatim>\<open>catch\<close> block.\<close>

definition caught :: "(jsstring \<Rightarrow> jsstring) \<Rightarrow> js_error \<Rightarrow> jsstring \<Rightarrow> parse_result" where
  "caught clean err text =
     \<lparr>messages = [\<lparr>role = js ''unknown'', content = clean text\<rparr>],
      format = js ''fallback'', messageCount = None, error = Some err\<rparr>"

text \<open>The callback of \<^verbatim>\<open>data.map\<close>; it throws on \<^verbatim>\<open>null\<close>, whose properties cannot be read.\<close>

definition item_message :: "json \<Rightarrow> message option" where
  "item_message item =
     (if item = JNull then None
      else Some \<lparr>role = (if get_prop item (js ''from'') = Some (JStr (js ''human'')) \<or>
                             get_prop item (js ''from'') = Some (JStr (js ''user''))
                          then js ''user'' else js ''assistant''),
                  content = sanitize_value (get_prop item (js ''value''))\<rparr>)"

definition parseJSONConversation :: "jsstring \<Rightarrow> parse_result" where
  "parseJSONConversation input =
     (case JSON_parse input of
        None \<Rightarrow> caught cleanHtmlContent SyntaxError input
      | Some (JArr items) \<Rightarrow>
          (if list_all (\<lambda>item. item \<noteq> JNull) items
           then \<lparr>messages = map (\<lambda>item. the (item_message item)) items,
                 format = js ''json'', messageCount = Some (length items), error = None\<rparr>
           else caught cleanHtmlContent TypeError input)
      | Some _ \<Rightarrow> caught cleanHtmlContent TypeError input)"

text \<open>
  What \<^verbatim>\<open>parseWithHTMLRewriter\<close> resolves to for the five tracks of the worker. All
  five are text tracks, so every field is a string or absent. \<^verbatim>\<open>HTMLRewriter\<close> is an
  API of the runtime: the function is a parameter of the cascade, \<open>None\<close> when its
  promise is rejected.
\<close>

record rewriter_result =
  userMessages :: "jsstring option"
  assistantMessages :: "jsstring option"
  messageTexts :: "jsstring option"
  userTexts :: "jsstring option"
  assistantTexts :: "jsstring option"

type_synonym rewriter = "jsstring \<Rightarrow> rewriter_result option"

definition clean_value :: "jsstring option \<Rightarrow> jsstring" where
  "clean_value v = (case v of None \<Rightarrow> [] | Some t \<Rightarrow> cleanHtmlContent t)"

text \<open>The second tier: the result it returns, \<open>None\<close> when control falls through to the third.\<close>

definition structured_tier :: "rewriter \<Rightarrow> jsstring \<Rightarrow> parse_result option" where
  "structured_tier rw html =
     (if str_includes html (js ''data-message-author-role'') \<or>
         str_includes html (js ''message-content'')
      then
        (case rw html of
           None \<Rightarrow> None
         | Some res \<Rightarrow>
             if truthy_str (userTexts res) \<or> truthy_str (assistantTexts res) then
               (let ms =
                  (if truthy_str (userTexts res)
                   then [\<lparr>role = js ''user'', content = clean_value (userTexts res)\<rparr>] else []) @
                  (if truthy_str (assistantTexts res)
                   then [\<lparr>role = js ''assistant'', content = clean_value (assistantTexts res)\<rparr>]
                   else [])
                in if 0 < length ms
                   then Some \<lparr>messages = ms, format = js ''htmlrewriter'',
                               messageCount = Some (length ms), error = None\<rparr>
                   else None)
             else None)
      else None)"

text \<open>The three patterns of the third tier.\<close>

definition role_label :: regex where
  "role_label = Alt (liti (js ''User'')) (Alt (liti (js ''Human''))
     (Alt (liti (js ''Assistant'')) (liti (js ''AI''))))"

definition patterns :: "regex list" where
  "patterns =
    [seqs [liti (js ''<div''), Star (notc 62), liti (js ''data-message-author-role=''), lit [34],
           Grp 1 (Alt (liti (js ''user'')) (liti (js ''assistant''))), lit [34],
           Star (notc 62), lit (js ''>''), Grp 2 (Lazy any_char), liti (js ''</div>'')],
     seqs [liti (js ''<div''), Star (notc 62), liti (js ''class=''), lit [34], Star (notc 34),
           liti (js ''message''), Star (notc 34), lit [34], Star (notc 62), lit (js ''>''),
           Grp 1 (Lazy any_char), liti (js ''</div>'')],
     seqs [Bol, Grp 1 role_label, lit (js '':''), Star (Chr is_space), Grp 2 (Lazy any_char),
           Look (Alt (seqs [Bol, role_label, lit (js '':'')]) Eol)]]"

text \<open>The body of the loop over the matches of one pattern: the messages one match adds.\<close>

definition match_messages :: "jsstring \<Rightarrow> nat \<times> mstate \<Rightarrow> message list" where
  "match_messages html m =
     (if truthy_str (capture html m 1) \<and> truthy_str (capture html m 2) then
        [\<lparr>role = toLowerCase (the (capture html m 1)),
          content = clean_value (capture html m 2)\<rparr>]
      else if truthy_str (capture html m 1) then
        [\<lparr>role = (if str_includes (toLowerCase (the (capture html m 0))) (js ''user'') \<or>
                      str_includes (toLowerCase (the (capture html m 0))) (js ''human'')
                   then js ''user'' else js ''assistant''),
          content = clean_value (capture html m 1)\<rparr>]
      else [])"

text \<open>The loop over the patterns: the first pattern with a match decides.\<close>

fun regex_tier :: "regex list \<Rightarrow> jsstring \<Rightarrow> message list" where
  "regex_tier [] html = []"
| "regex_tier (p # ps) html =
     (if 0 < length (matchAll p html)
      then concat (map (match_messages html) (matchAll p html))
      else regex_tier ps html)"

text \<open>
  \<^verbatim>\<open>parseHtmlContent\<close> for a string. Its outer \<^verbatim>\<open>catch\<close> block has no branch here:
  the two JSON functions catch their own exceptions, a rejected rewriter is caught by the
  inner \<^verbatim>\<open>try\<close>, and the string and regular expression operations do not throw.
\<close>

definition parseHtmlContent :: "rewriter \<Rightarrow> jsstring \<Rightarrow> parse_result" where
  "parseHtmlContent rw html =
     (if isValidConversationJSON html then parseJSONConversation html
      else
        (case structured_tier rw html of
           Some res \<Rightarrow> res
         | None \<Rightarrow>
             (let found = regex_tier patterns html;
                  ms = (if length found = 0
                        then [\<lparr>role = js ''unknown'', content = cleanHtmlContent html\<rparr>]
                        else found)
              in \<lparr>messages = ms, format = js ''parsed'',
                   messageCount = Some (length ms), error = None\<rparr>)))"

section \<open>Saving a conversation\<close>

text \<open>What \<^verbatim>\<open>handlePost\<close> reads of a request: two headers, the body as text, the origin of the URL.\<close>

record request =
  cf_connecting_ip :: "jsstring option"
  content_type :: "jsstring option"
  body :: jsstring
  origin :: jsstring

record conversation =
  conv_id :: jsstring
  parsed :: parse_result
  raw :: jsstring
  conv_format :: jsstring
  created :: jsstring
  conv_size :: nat
  ip :: jsstring

text \<open>
  What the runtime supplies during a request: the values of \<^verbatim>\<open>Math.random()\<close>, the
  rewriter, \<^verbatim>\<open>JSON.stringify\<close> on the record to store, and the time of day as an ISO
  string.
\<close>

record runtime =
  random :: "nat \<Rightarrow> rat"
  rewrite :: rewriter
  stringify :: "conversation \<Rightarrow> jsstring"
  now :: jsstring

datatype response =
    Text nat jsstring
  | Shared jsstring jsstring

definition clientIP :: "request \<Rightarrow> jsstring" where
  "clientIP req = (if truthy_str (cf_connecting_ip req) then the (cf_connecting_ip req) else js ''unknown'')"

definition contentType :: "request \<Rightarrow> jsstring" where
  "contentType req = (if truthy_str (content_type req) then the (content_type req) else [])"

text \<open>
  The value of \<^verbatim>\<open>htmlContent\<close> before it is normalized. Reading a JSON body throws
  when the body is not JSON, and so does reading a property of \<^verbatim>\<open>null\<close>.
\<close>

definition read_body :: "request \<Rightarrow> js_error + json option" where
  "read_body req =
     (if str_includes (contentType req) (js ''application/json'') then
        (case JSON_parse (body req) of
           None \<Rightarrow> Inl SyntaxError
         | Some b \<Rightarrow>
             if b = JNull then Inl TypeError
             else if truthy (get_prop b (js ''html'')) then Inr (get_prop b (js ''html''))
             else Inr (get_prop b (js ''content'')))
      else Inr (Some (JStr (body req))))"

definition conversationData :: "jsstring \<Rightarrow> parse_result \<Rightarrow> jsstring \<Rightarrow> jsstring \<Rightarrow> jsstring \<Rightarrow> conversation" where
  "conversationData i p htmlContent time client =
     \<lparr>conv_id = i, parsed = p, raw = htmlContent,
      conv_format = (if format p \<noteq> [] then format p else js ''raw''),
      created = time, conv_size = length htmlContent, ip = client\<rparr>"

definition handlePost :: "runtime \<Rightarrow> request \<Rightarrow> env \<Rightarrow> (js_error + response) \<times> env" where
  "handlePost rt req e =
     (case checkRateLimit e (clientIP req) of
        (Inl err, e1) \<Rightarrow> (Inl err, e1)
      | (Inr _, e1) \<Rightarrow>
          (case read_body req of
             Inl err \<Rightarrow> (Inl err, e1)
           | Inr v \<Rightarrow>
               (let htmlContent = preprocessContent v
                in if htmlContent = [] then (Inr (Text 400 (js ''No content provided'')), e1)
                   else if 1024 * 1024 < length htmlContent
                   then (Inr (Text 413 (js ''Content too large (max 1MB)'')), e1)
                   else
                     (case generateUniqueId (random rt) e1 of
                        (Inl err, e2) \<Rightarrow> (Inl err, e2)
                      | (Inr i, e2) \<Rightarrow>
                          (let parsedContent = parseHtmlContent (rewrite rt) htmlContent;
                               e3 = e2\<lparr>trace := Parse htmlContent # trace e2\<rparr>;
                               e4 = kv_put e3 i
                                      (stringify rt (conversationData i parsedContent htmlContent
                                         (now rt) (clientIP req))) None
                           in (Inr (Shared i (origin req @ js ''/'' @ i)), e4))))))"

section \<open>Definitions used by the properties\<close>

text \<open>
  The message the specification expects for an element of a conversation array: the
  role by the synonym table, the content sanitized.
\<close>

definition field_text :: "json \<Rightarrow> jsstring \<Rightarrow> jsstring" where
  "field_text item k = (case get_prop item k of Some (JStr t) \<Rightarrow> t | _ \<Rightarrow> [])"

definition spec_message :: "json \<Rightarrow> message" where
  "spec_message item =
     \<lparr>role = (if field_text item (js ''from'') = js ''human'' \<or>
                  field_text item (js ''from'') = js ''user''
               then js ''user'' else js ''assistant''),
      content = sanitizeHtmlContent (field_text item (js ''value''))\<rparr>"

text \<open>
  \<open>n\<close> requests of one client, one after the other: the outcome of each and the
  counter the store holds after it.
\<close>

fun admit_seq :: "nat \<Rightarrow> env \<Rightarrow> jsstring \<Rightarrow> ((js_error + unit) \<times> jsstring option) list" where
  "admit_seq 0 e client = []"
| "admit_seq (Suc n) e client =
     (fst (checkRateLimit e client), sharegpt (snd (checkRateLimit e client)) (rate_key client)) #
     admit_seq n (snd (checkRateLimit e client)) client"

text \<open>The calls of the parser and the writes of a key in a trace.\<close>

definition parse_calls :: "env \<Rightarrow> jsstring list" where
  "parse_calls e = concat (map (\<lambda>ev. case ev of Parse t \<Rightarrow> [t] | _ \<Rightarrow> []) (trace e))"

definition puts_of :: "jsstring \<Rightarrow> env \<Rightarrow> jsstring list" where
  "puts_of k e =
     concat (map (\<lambda>ev. case ev of Put k' v ttl \<Rightarrow> if k' = k then [v] else [] | _ \<Rightarrow> []) (trace e))"

text \<open>A non-empty text of decimal digits.\<close>

definition is_decimal :: "jsstring \<Rightarrow> bool" where
  "is_decimal t = (t \<noteq> [] \<and> (\<forall>c \<in> set t. 48 \<le> c \<and> c \<le> 57))"

text \<open>
  The declarative reading of a submission: the count the store holds for a client (0 when
  there is none or it is not a number), whether the client is over the limit, the
  normalized content, whether all ten candidates of the allocator are taken, and the
  reason why a submission is turned away, \<open>None\<close> when there is none.
\<close>

definition stored_count :: "env \<Rightarrow> jsstring \<Rightarrow> int" where
  "stored_count e client =
     (case parseInt_value (sharegpt e (rate_key client)) of None \<Rightarrow> 0 | Some n \<Rightarrow> n)"

definition rate_limited :: "env \<Rightarrow> jsstring \<Rightarrow> bool" where
  "rate_limited e client =
     (truthy_str (sharegpt e (rate_key client)) \<and> 10 \<le> stored_count e client)"

definition normalized :: "request \<Rightarrow> jsstring" where
  "normalized req = (case read_body req of Inl err \<Rightarrow> [] | Inr v \<Rightarrow> preprocessContent v)"

definition all_taken :: "(nat \<Rightarrow> rat) \<Rightarrow> env \<Rightarrow> bool" where
  "all_taken rnd e = list_all (\<lambda>a. truthy_str (sharegpt e (candidate rnd a))) [0..<10]"

definition rejection :: "runtime \<Rightarrow> request \<Rightarrow> env \<Rightarrow> (js_error + response) option" where
  "rejection rt req e =
     (if rate_limited e (clientIP req) then Some (Inl RateLimitExceeded)
      else
        (case read_body req of
           Inl err \<Rightarrow> Some (Inl err)
         | Inr v \<Rightarrow>
             if normalized req = [] then Some (Inr (Text 400 (js ''No content provided'')))
             else if 1048576 < length (normalized req)
             then Some (Inr (Text 413 (js ''Content too large (max 1MB)'')))
             else if all_taken (random rt) e then Some (Inl FailedToGenerateUniqueId)
             else None))"

text \<open>
  A sufficient condition, read off the syntax of a regular expression, for every match
  to consume a character that satisfies \<open>P\<close>.
\<close>

primrec needs :: "(jschar \<Rightarrow> bool) \<Rightarrow> regex \<Rightarrow> bool" where
  "needs P Epsilon = False"
| "needs P (Chr Q) = (\<forall>c. Q c \<longrightarrow> P c)"
| "needs P (Seq a b) = (needs P a \<or> needs P b)"
| "needs P (Alt a b) = (needs P a \<and> needs P b)"
| "needs P (Star a) = False"
| "needs P (Lazy a) = False"
| "needs P (Grp i a) = needs P a"
| "needs P (Look a) = False"
| "needs P Bol = False"
| "needs P Eol = False"
| "needs P Bos = False"
| "needs P Eos = False"






text \<open>
  What it means for a bound \<open>m\<close> on the nested calls of the JSON parser to be harmless:
  whatever succeeds under \<open>m\<close> has read at least one character and succeeds, with the
  same result, under every bound of at least twice the number of characters read.
\<close>

definition fuel_ok :: "nat \<Rightarrow> bool" where
  "fuel_ok m = (\<forall>s r.
     (\<forall>v. parse_value m s = Some (v, r) \<longrightarrow>
        length r < length s \<and>
        (\<forall>n. 2 * (length s - length r) \<le> n \<longrightarrow> parse_value n s = Some (v, r))) \<and>
     (\<forall>vs. parse_elements m s = Some (vs, r) \<longrightarrow>
        length r < length s \<and>
        (\<forall>n. 2 * (length s - length r) + 1 \<le> n \<longrightarrow> parse_elements n s = Some (vs, r))) \<and>
     (\<forall>ms. parse_members m s = Some (ms, r) \<longrightarrow>
        length r < length s \<and>
        (\<forall>n. 2 * (length s - length r) + 1 \<le> n \<longrightarrow> parse_members n s = Some (ms, r))))"

text \<open>Sample inputs: a rewriter that is always rejected, a runtime, stores and requests.\<close>

definition no_rewriter :: rewriter where
  "no_rewriter html = None"

definition zero_random :: "nat \<Rightarrow> rat" where
  "zero_random k = 0"

definition sample_stringify :: "conversation \<Rightarrow> jsstring" where
  "sample_stringify c = js ''{}''"

definition sample_runtime :: runtime where
  "sample_runtime = \<lparr>random = zero_random, rewrite = no_rewriter,
     stringify = sample_stringify, now = js ''2025-01-01T00:00:00.000Z''\<rparr>"

definition empty_env :: env where
  "empty_env = \<lparr>sharegpt = Map.empty, trace = []\<rparr>"

definition taken_env :: env where
  "taken_env = \<lparr>sharegpt = [js ''aaaaaaaa'' \<mapsto> js ''{}''], trace = []\<rparr>"

definition text_request :: "jsstring \<Rightarrow> request" where
  "text_request t = \<lparr>cf_connecting_ip = Some (js ''203.0.113.7''), content_type = None,
     body = t, origin = js ''https://share.example''\<rparr>"

definition scenario_json :: jsstring where
  "scenario_json =
     js ''[{\"from\":\"human\",\"value\":\"hi\"},{\"from\":\"gpt\",\"value\":\"<b>hello</b>\"}]''"

section \<open>Properties of the parse cascade\<close>

lemma valid_item_not_null: "valid_item item \<Longrightarrow> item \<noteq> JNull"
  by (auto simp: valid_item_def truthy_def)

lemma valid_items_not_null:
  "list_all valid_item items \<Longrightarrow> list_all (\<lambda>item. item \<noteq> JNull) items"
  by (induction items) (auto dest: valid_item_not_null)

lemma structured_tier_count:
  "structured_tier rw html = Some res \<Longrightarrow> messageCount res = Some (length (messages res))"
  by (auto simp: structured_tier_def Let_def split: if_splits option.splits)

lemma json_tier_result:
  assumes "JSON_parse html = Some (JArr items)" and "items \<noteq> []"
    and "list_all valid_item items"
  shows "parseHtmlContent rw html =
     \<lparr>messages = map (\<lambda>item. the (item_message item)) items, format = js ''json'',
      messageCount = Some (length items), error = None\<rparr>"
proof -
  from assms have "isValidConversationJSON html"
    by (simp add: isValidConversationJSON_def)
  moreover from assms(3) have "list_all (\<lambda>item. item \<noteq> JNull) items"
    by (rule valid_items_not_null)
  ultimately show ?thesis
    using assms(1) by (simp add: parseHtmlContent_def parseJSONConversation_def)
qed

lemma valid_item_message:
  assumes "item = JObj ms" and "get_prop item (js ''from'') = Some (JStr f)"
    and "get_prop item (js ''value'') = Some (JStr v)"
  shows "the (item_message item) = spec_message item"
  using assms by (simp add: item_message_def spec_message_def field_text_def sanitize_value_def)

text \<open>
  C1. Every input that is a valid conversation array (it parses as a non-empty JSON
  array, and every element is an object whose fields \<^verbatim>\<open>from\<close> and \<^verbatim>\<open>value\<close> are
  strings, \<^verbatim>\<open>from\<close> one of human, gpt, user, assistant) is parsed to the format
  \<^verbatim>\<open>json\<close>, with as many messages as the array has elements, in the order of the
  array, each with the role of the synonym table (user for human and user, assistant
  otherwise) and the sanitized \<^verbatim>\<open>value\<close> as content.
\<close>

theorem parse_valid_conversation_json:
  assumes "JSON_parse html = Some (JArr items)" and "items \<noteq> []"
    and "\<forall>item \<in> set items. \<exists>ms f v. item = JObj ms \<and>
           get_prop item (js ''from'') = Some (JStr f) \<and>
           get_prop item (js ''value'') = Some (JStr v) \<and>
           f \<in> {js ''human'', js ''gpt'', js ''user'', js ''assistant''}"
  shows "parseHtmlContent rw html =
     \<lparr>messages = map spec_message items, format = js ''json'',
      messageCount = Some (length items), error = None\<rparr>"
proof -
  have valid: "valid_item item" if "item \<in> set items" for item
  proof -
    from assms(3) that obtain ms f v where
      "item = JObj ms" "get_prop item (js ''from'') = Some (JStr f)"
      "get_prop item (js ''value'') = Some (JStr v)"
      "f \<in> {js ''human'', js ''gpt'', js ''user'', js ''assistant''}"
      by blast
    then show ?thesis
      by (auto simp: valid_item_def truthy_def from_ok_def)
  qed
  then have all: "list_all valid_item items"
    by (simp add: list_all_iff)
  have same: "the (item_message item) = spec_message item" if "item \<in> set items" for item
    using assms(3) that valid_item_message by blast
  then have "map (\<lambda>item. the (item_message item)) items = map spec_message items"
    by simp
  with json_tier_result[OF assms(1,2) all] show ?thesis
    by simp
qed

theorem parse_valid_conversation_json_witness:
  "parseHtmlContent no_rewriter scenario_json =
     \<lparr>messages = [\<lparr>role = js ''user'', content = js ''hi''\<rparr>,
                  \<lparr>role = js ''assistant'', content = js ''<b>hello</b>''\<rparr>],
      format = js ''json'', messageCount = Some 2, error = None\<rparr>"
proof -
  let ?items = "[JObj [(js ''from'', JStr (js ''human'')), (js ''value'', JStr (js ''hi''))],
                 JObj [(js ''from'', JStr (js ''gpt'')), (js ''value'', JStr (js ''<b>hello</b>''))]]"
  have p: "JSON_parse scenario_json = Some (JArr ?items)"
    by code_simp
  have n: "?items \<noteq> []"
    by simp
  have f1: "get_prop (?items ! 0) (js ''from'') = Some (JStr (js ''human''))"
    and v1: "get_prop (?items ! 0) (js ''value'') = Some (JStr (js ''hi''))"
    and f2: "get_prop (?items ! 1) (js ''from'') = Some (JStr (js ''gpt''))"
    and v2: "get_prop (?items ! 1) (js ''value'') = Some (JStr (js ''<b>hello</b>''))"
    by code_simp+
  have i: "\<forall>item \<in> set ?items. \<exists>ms f v. item = JObj ms \<and>
           get_prop item (js ''from'') = Some (JStr f) \<and>
           get_prop item (js ''value'') = Some (JStr v) \<and>
           f \<in> {js ''human'', js ''gpt'', js ''user'', js ''assistant''}"
    using f1 v1 f2 v2 by simp
  have m: "map spec_message ?items =
     [\<lparr>role = js ''user'', content = js ''hi''\<rparr>,
      \<lparr>role = js ''assistant'', content = js ''<b>hello</b>''\<rparr>]"
    by code_simp
  from parse_valid_conversation_json[OF p n i, of no_rewriter] m show ?thesis
    by simp
qed

text \<open>The object of a \<^verbatim>\<open>catch\<close> block, taken alone, has no \<^verbatim>\<open>messageCount\<close>.\<close>

lemma parseJSONConversation_catch:
  "messageCount (parseJSONConversation (js ''not json'')) = None"
  by code_simp

text \<open>
  C4. The result of the cascade, for every input and every behaviour of the rewriter,
  carries a \<^verbatim>\<open>messageCount\<close> equal to the length of its message list. The objects of
  the \<^verbatim>\<open>catch\<close> blocks, which have no \<^verbatim>\<open>messageCount\<close>, are never the result for a
  string: the JSON tier is entered only after the same text has been parsed and checked.
\<close>

theorem parse_messageCount:
  "messageCount (parseHtmlContent rw html) = Some (length (messages (parseHtmlContent rw html)))"
proof (cases "isValidConversationJSON html")
  case True
  then obtain items where p: "JSON_parse html = Some (JArr items)"
    and v: "list_all valid_item items"
    by (auto simp: isValidConversationJSON_def split: option.splits json.splits)
  from v have "list_all (\<lambda>item. item \<noteq> JNull) items"
    by (rule valid_items_not_null)
  with p True show ?thesis
    by (simp add: parseHtmlContent_def parseJSONConversation_def)
next
  case False
  show ?thesis
  proof (cases "structured_tier rw html")
    case None
    with False show ?thesis
      by (simp add: parseHtmlContent_def Let_def)
  next
    case (Some res)
    with False structured_tier_count[OF Some] show ?thesis
      by (simp add: parseHtmlContent_def)
  qed
qed

theorem parse_messageCount_witness:
  "messageCount (parseHtmlContent no_rewriter scenario_json) = Some 2 \<and>
   length (messages (parseHtmlContent no_rewriter scenario_json)) = 2"
proof -
  have "length (messages (parseHtmlContent no_rewriter scenario_json)) = 2"
    by code_simp
  with parse_messageCount[of no_rewriter scenario_json] show ?thesis
    by simp
qed

lemma regex_tier_no_match:
  "\<forall>p \<in> set ps. matchAll p html = [] \<Longrightarrow> regex_tier ps html = []"
  by (induction ps) simp_all

lemma structured_tier_nothing:
  assumes "(\<not> str_includes html (js ''data-message-author-role'') \<and>
            \<not> str_includes html (js ''message-content'')) \<or>
           rw html = None \<or>
           (\<exists>res. rw html = Some res \<and> \<not> truthy_str (userTexts res) \<and>
                  \<not> truthy_str (assistantTexts res))"
  shows "structured_tier rw html = None"
  using assms by (auto simp: structured_tier_def)

text \<open>
  C5, as the code has it. When no tier yields a message (the input is not a valid
  conversation array; the markers of the export markup are absent, or the rewriter is
  rejected, or it extracts neither a user nor an assistant text; and none of the three
  patterns matches), the result is exactly one message with the role \<^verbatim>\<open>unknown\<close> and
  the fully cleaned input as content, and its format is \<^verbatim>\<open>parsed\<close>, not
  \<^verbatim>\<open>fallback\<close>.
\<close>

theorem parse_single_blob:
  assumes "\<not> isValidConversationJSON html"
    and "(\<not> str_includes html (js ''data-message-author-role'') \<and>
          \<not> str_includes html (js ''message-content'')) \<or>
         rw html = None \<or>
         (\<exists>res. rw html = Some res \<and> \<not> truthy_str (userTexts res) \<and>
                \<not> truthy_str (assistantTexts res))"
    and "\<forall>p \<in> set patterns. matchAll p html = []"
  shows "parseHtmlContent rw html =
     \<lparr>messages = [\<lparr>role = js ''unknown'', content = cleanHtmlContent html\<rparr>],
      format = js ''parsed'', messageCount = Some 1, error = None\<rparr>"
  using assms(1) structured_tier_nothing[where rw = rw and html = html, OF assms(2)]
    regex_tier_no_match[OF assms(3)]
  by (simp add: parseHtmlContent_def)

theorem parse_single_blob_witness:
  "parseHtmlContent no_rewriter (js ''hello'') =
     \<lparr>messages = [\<lparr>role = js ''unknown'', content = js ''hello''\<rparr>],
      format = js ''parsed'', messageCount = Some 1, error = None\<rparr>"
proof -
  have a: "\<not> isValidConversationJSON (js ''hello'')"
    by code_simp
  have b: "(\<not> str_includes (js ''hello'') (js ''data-message-author-role'') \<and>
            \<not> str_includes (js ''hello'') (js ''message-content'')) \<or>
           no_rewriter (js ''hello'') = None \<or>
           (\<exists>res. no_rewriter (js ''hello'') = Some res \<and> \<not> truthy_str (userTexts res) \<and>
                  \<not> truthy_str (assistantTexts res))"
    by (simp add: no_rewriter_def)
  have "list_all (\<lambda>p. matchAll p (js ''hello'') = []) patterns"
    by code_simp
  then have c: "\<forall>p \<in> set patterns. matchAll p (js ''hello'') = []"
    by (simp add: list_all_iff)
  have d: "cleanHtmlContent (js ''hello'') = js ''hello''"
    by code_simp
  from parse_single_blob[where rw = no_rewriter and html = "js ''hello''", OF a b c] d show ?thesis
    by simp
qed

theorem parse_single_blob_format_counterexample:
  "\<not> isValidConversationJSON (js ''hello'') \<and>
   structured_tier no_rewriter (js ''hello'') = None \<and>
   regex_tier patterns (js ''hello'') = [] \<and>
   format (parseHtmlContent no_rewriter (js ''hello'')) \<noteq> js ''fallback''"
  by code_simp

text \<open>
  C6 does not hold of the code. A match of the third pattern with a non-empty body takes
  the first branch of the loop, which stores the lowered label itself: the line
  \<^verbatim>\<open>Human: hi\<close> yields the role \<^verbatim>\<open>human\<close> and the line \<^verbatim>\<open>AI: hello\<close> the role
  \<^verbatim>\<open>ai\<close>, whatever the rewriter does. The substring check is reached only when the
  body is empty, and then the label becomes the content.
\<close>

theorem regex_tier_role_is_label:
  "messages (parseHtmlContent rw (js ''Human: hi'')) =
     [\<lparr>role = js ''human'', content = js ''hi''\<rparr>] \<and>
   messages (parseHtmlContent rw (js ''AI: hello'')) =
     [\<lparr>role = js ''ai'', content = js ''hello''\<rparr>] \<and>
   messages (parseHtmlContent rw (js ''Human:'')) =
     [\<lparr>role = js ''user'', content = js ''Human''\<rparr>]"
  by code_simp

section \<open>Properties of the sanitizer and the cleaner\<close>

text \<open>
  C2 does not hold of the code. Each pattern is applied once, from left to right, so a
  block, a handler or a URI scheme that only comes together when something inside it is
  removed stays in the output; and an event handler without quotes is not matched at all.
\<close>

theorem sanitize_leaves_script:
  "sanitizeHtmlContent (js ''<scr<script></script>ipt>alert(1)</script>'') =
     js ''<script>alert(1)</script>'' \<and>
   sanitizeHtmlContent (js ''<a href=\"javajavascript:script:alert(1)\">x</a>'') =
     js ''<a href=\"javascript:alert(1)\">x</a>'' \<and>
   sanitizeHtmlContent (js ''<img src=x onerror=alert(1)>'') =
     js ''<img src=x onerror=alert(1)>''"
  by code_simp

section \<open>Properties of the ID allocator\<close>

lemma length_chars: "length chars = 55"
  by (simp add: chars_def js_def)

lemma distinct_chars: "distinct chars"
  by code_simp

lemma ambiguous_excluded: "\<forall>c \<in> set (js ''0O1lI''). c \<notin> set chars"
  by code_simp

lemma pick_in_chars:
  assumes "0 \<le> r" and "r < 1"
  shows "\<exists>c \<in> set chars. pick r = [c]"
proof -
  let ?i = "\<lfloor>r * of_nat (length chars)\<rfloor>"
  from assms(1) have lo: "0 \<le> ?i"
    by simp
  from assms(2) have "r * of_nat (length chars) < of_nat (length chars)"
    by (simp add: length_chars)
  then have hi: "?i < int (length chars)"
    by (simp add: floor_less_iff)
  from lo hi have "nat ?i < length chars"
    by linarith
  then have "chars ! nat ?i \<in> set chars"
    by (rule nth_mem)
  moreover from lo hi have "pick r = [chars ! nat ?i]"
    by (simp add: pick_def Let_def)
  ultimately show ?thesis
    by blast
qed

lemma concat_singletons:
  assumes "\<And>i. \<exists>c \<in> S. f i = [c]"
  shows "length (concat (map f xs)) = length xs \<and> set (concat (map f xs)) \<subseteq> S"
proof (induction xs)
  case Nil
  show ?case by simp
next
  case (Cons x xs)
  from assms[of x] obtain c where "c \<in> S" "f x = [c]"
    by blast
  with Cons show ?case
    by simp
qed

lemma candidate_in_chars:
  assumes "\<forall>k. 0 \<le> rnd k \<and> rnd k < 1"
  shows "length (candidate rnd a) = 8 \<and> set (candidate rnd a) \<subseteq> set chars"
proof -
  have "\<exists>c \<in> set chars. pick (rnd (8 * a + i)) = [c]" for i
    using assms pick_in_chars by blast
  from concat_singletons[where f = "\<lambda>i. pick (rnd (8 * a + i))" and S = "set chars" and xs = "[0..<8]", OF this]
  show ?thesis
    by (simp add: candidate_def)
qed

lemma generate_loop_returns_candidate:
  "generate_loop rnd e attempts = (Inr i, e') \<Longrightarrow> \<exists>a < maxAttempts. i = candidate rnd a"
proof (induction rnd e attempts rule: generate_loop.induct)
  case (1 rnd e attempts)
  show ?case
  proof (cases "attempts < maxAttempts")
    case False
    with "1.prems" show ?thesis
      by (simp add: generate_loop.simps[of rnd e attempts])
  next
    case True
    show ?thesis
    proof (cases "truthy_str (kv_get e (candidate rnd attempts))")
      case False
      with True "1.prems" have "i = candidate rnd attempts"
        by (simp add: generate_loop.simps[of rnd e attempts])
      with True show ?thesis
        by blast
    next
      case t: True
      with True "1.prems" have "generate_loop rnd (did_get e (candidate rnd attempts)) (Suc attempts) = (Inr i, e')"
        by (simp add: generate_loop.simps[of rnd e attempts])
      with "1.IH" True t show ?thesis
        by simp
    qed
  qed
qed

lemma generate_loop_exhausted:
  "\<forall>a. attempts \<le> a \<and> a < maxAttempts \<longrightarrow> truthy_str (sharegpt e (candidate rnd a)) \<Longrightarrow>
   generate_loop rnd e attempts =
     (Inl FailedToGenerateUniqueId,
      e\<lparr>trace := map (\<lambda>a. Get (candidate rnd a)) (rev [attempts..<maxAttempts]) @ trace e\<rparr>)"
proof (induction rnd e attempts rule: generate_loop.induct)
  case (1 rnd e attempts)
  show ?case
  proof (cases "attempts < maxAttempts")
    case False
    then show ?thesis
      by (simp add: generate_loop.simps[of rnd e attempts])
  next
    case True
    with "1.prems" have t: "truthy_str (kv_get e (candidate rnd attempts))"
      by (simp add: kv_get_def)
    have "\<forall>a. Suc attempts \<le> a \<and> a < maxAttempts \<longrightarrow>
            truthy_str (sharegpt (did_get e (candidate rnd attempts)) (candidate rnd a))"
      using "1.prems" by (simp add: did_get_def)
    from "1.IH"[OF True _ this] t
    have "generate_loop rnd (did_get e (candidate rnd attempts)) (Suc attempts) =
      (Inl FailedToGenerateUniqueId,
       (did_get e (candidate rnd attempts))\<lparr>trace := map (\<lambda>a. Get (candidate rnd a)) (rev [Suc attempts..<maxAttempts]) @
           trace (did_get e (candidate rnd attempts))\<rparr>)"
      by simp
    with True t show ?thesis
      by (simp add: generate_loop.simps[of rnd e attempts] did_get_def upt_conv_Cons)
  qed
qed

text \<open>
  C7, as the code has it. The alphabet has 55 symbols, not 56: the letters without
  \<^verbatim>\<open>l\<close>, \<^verbatim>\<open>o\<close>, \<^verbatim>\<open>I\<close>, \<^verbatim>\<open>L\<close>, \<^verbatim>\<open>O\<close> and the digits without \<^verbatim>\<open>0\<close> and \<^verbatim>\<open>1\<close>; in
  particular none of 0, O, 1, l, I is in it. When \<^verbatim>\<open>Math.random\<close> keeps its contract
  (values from 0 up to but not including 1), an identifier that is returned has 8
  characters, all of the alphabet. When every candidate is the key of a non-empty value,
  the allocator fails with its error after exactly the 10 reads of the 10 candidates,
  and writes nothing.
\<close>

theorem generateUniqueId_alphabet_and_bound:
  "length chars = 55 \<and> distinct chars \<and> (\<forall>c \<in> set (js ''0O1lI''). c \<notin> set chars) \<and>
   ((\<forall>k. 0 \<le> rnd k \<and> rnd k < 1) \<longrightarrow>
      (\<forall>i e'. generateUniqueId rnd e = (Inr i, e') \<longrightarrow> length i = 8 \<and> set i \<subseteq> set chars)) \<and>
   ((\<forall>a < maxAttempts. truthy_str (sharegpt e (candidate rnd a))) \<longrightarrow>
      generateUniqueId rnd e =
        (Inl FailedToGenerateUniqueId,
         e\<lparr>trace := map (\<lambda>a. Get (candidate rnd a)) (rev [0..<10]) @ trace e\<rparr>))"
proof -
  have a: "length i = 8 \<and> set i \<subseteq> set chars"
    if "\<forall>k. 0 \<le> rnd k \<and> rnd k < 1" and "generateUniqueId rnd e = (Inr i, e')" for i e'
    using generate_loop_returns_candidate[of rnd e 0 i e'] candidate_in_chars[OF that(1)] that(2)
    by (auto simp: generateUniqueId_def)
  have b: "generateUniqueId rnd e =
        (Inl FailedToGenerateUniqueId,
         e\<lparr>trace := map (\<lambda>a. Get (candidate rnd a)) (rev [0..<10]) @ trace e\<rparr>)"
    if "\<forall>a < maxAttempts. truthy_str (sharegpt e (candidate rnd a))"
    using generate_loop_exhausted[of 0 e rnd] that
    by (simp add: generateUniqueId_def maxAttempts_def)
  from a b length_chars distinct_chars ambiguous_excluded show ?thesis
    by blast
qed

theorem alphabet_size_counterexample: "length chars \<noteq> 56 \<and> card (set chars) \<noteq> 56"
  using length_chars distinct_chars by (simp add: distinct_card)

theorem generateUniqueId_witness:
  "generateUniqueId zero_random empty_env = (Inr (js ''aaaaaaaa''), did_get empty_env (js ''aaaaaaaa'')) \<and>
   length (js ''aaaaaaaa'') = 8 \<and> set (js ''aaaaaaaa'') \<subseteq> set chars \<and>
   generateUniqueId zero_random taken_env =
     (Inl FailedToGenerateUniqueId, taken_env\<lparr>trace := replicate 10 (Get (js ''aaaaaaaa''))\<rparr>)"
proof -
  have r: "\<forall>k. 0 \<le> zero_random k \<and> zero_random k < 1"
    by (simp add: zero_random_def)
  have c: "candidate zero_random a = js ''aaaaaaaa''" for a
    by code_simp
  have g: "generateUniqueId zero_random empty_env = (Inr (js ''aaaaaaaa''), did_get empty_env (js ''aaaaaaaa''))"
    by (simp add: generateUniqueId_def generate_loop.simps[of _ _ 0] maxAttempts_def c kv_get_def empty_env_def truthy_str_def)
  have t: "\<forall>a < maxAttempts. truthy_str (sharegpt taken_env (candidate zero_random a))"
    by (simp add: c taken_env_def truthy_str_def js_def)
  have m: "map (\<lambda>a. Get (candidate zero_random a)) (rev [0..<10]) = replicate 10 (Get (js ''aaaaaaaa''))"
    by (simp add: c map_replicate_const)
  from generateUniqueId_alphabet_and_bound[of zero_random empty_env] r g
  have "length (js ''aaaaaaaa'') = 8 \<and> set (js ''aaaaaaaa'') \<subseteq> set chars"
    by blast
  moreover from generateUniqueId_alphabet_and_bound[of zero_random taken_env] t
  have "generateUniqueId zero_random taken_env =
        (Inl FailedToGenerateUniqueId,
         taken_env\<lparr>trace := map (\<lambda>a. Get (candidate zero_random a)) (rev [0..<10]) @ trace taken_env\<rparr>)"
    by blast
  ultimately show ?thesis
    using r g t m by (simp add: taken_env_def)
qed

section \<open>Properties of the rate limiter\<close>

lemma digit_chars:
  "list_all (\<lambda>d. 48 \<le> (of_nat (48 + d) :: jschar) \<and> (of_nat (48 + d) :: jschar) \<le> 57 \<and>
      digit_val (of_nat (48 + d)) = d) [0..<10]"
  by code_simp

lemma digit_char:
  assumes "d < 10"
  shows "48 \<le> (of_nat (48 + d) :: jschar)" and "(of_nat (48 + d) :: jschar) \<le> 57"
    and "digit_val (of_nat (48 + d)) = d"
  using assms digit_chars by (simp_all add: list_all_iff del: of_nat_add)

lemma decimal_small: "n < 10 \<Longrightarrow> decimal n = [of_nat (48 + n)]"
  by (subst decimal.simps) (simp only: if_True)

lemma decimal_large:
  "\<not> n < 10 \<Longrightarrow> decimal n = decimal (n div 10) @ [of_nat (48 + n mod 10)]"
  by (subst decimal.simps) (simp only: if_False)

lemma decimal_is_decimal: "is_decimal (decimal n)"
proof (induction n rule: decimal.induct)
  case (1 n)
  show ?case
  proof (cases "n < 10")
    case True
    with digit_char(1,2)[OF True] show ?thesis
      unfolding decimal_small[OF True] is_decimal_def by simp
  next
    case False
    have m: "n mod 10 < 10" by simp
    from "1.IH"[OF False] digit_char(1,2)[OF m] show ?thesis
      unfolding decimal_large[OF False] is_decimal_def by simp
  qed
qed

lemma decimal_value: "foldl (\<lambda>a c. 10 * a + digit_val c) 0 (decimal n) = n"
proof (induction n rule: decimal.induct)
  case (1 n)
  show ?case
  proof (cases "n < 10")
    case True
    with digit_char(3)[OF True] show ?thesis
      unfolding decimal_small[OF True] by simp
  next
    case False
    have m: "n mod 10 < 10" by simp
    from "1.IH"[OF False] digit_char(3)[OF m] show ?thesis
      unfolding decimal_large[OF False] by simp
  qed
qed

lemma digit_val_decimal:
  "48 \<le> c \<Longrightarrow> c \<le> 57 \<Longrightarrow>
   digit_val c < 10 \<and> \<not> is_space c \<and> c \<noteq> 45 \<and> c \<noteq> 43 \<and> c \<noteq> 120 \<and> c \<noteq> 88"
  by (auto simp: digit_val_def is_space_def unat_sub word_le_nat_alt)

lemma parseInt_decimal:
  assumes "is_decimal t"
  shows "parseInt t = Some (int (foldl (\<lambda>a c. 10 * a + digit_val c) 0 t))"
proof -
  from assms obtain c cs where t: "t = c # cs"
    by (cases t) (auto simp: is_decimal_def)
  from assms have all: "\<forall>x \<in> set t. digit_val x < 10 \<and> \<not> is_space x \<and> x \<noteq> 45 \<and> x \<noteq> 43 \<and>
      x \<noteq> 120 \<and> x \<noteq> 88"
    using digit_val_decimal by (auto simp: is_decimal_def)
  have nohex: "\<not> starts_with t (js ''0x'')" "\<not> starts_with t (js ''0X'')"
    using all t by (cases cs; simp add: js_def)+
  have tw: "takeWhile (\<lambda>c. digit_val c < 10) t = t"
    using all by (simp add: takeWhile_eq_all_conv)
  from all t have dw: "dropWhile is_space t = t"
    by simp
  from all t have neg: "(case t of [] \<Rightarrow> False | c # x \<Rightarrow> c = 45) = False"
    by simp
  from all t have sg: "(case t of [] \<Rightarrow> [] | c # cs \<Rightarrow> if c = 45 \<or> c = 43 then cs else t) = t"
    by simp
  from assms have ne: "t \<noteq> []"
    by (simp add: is_decimal_def)
  show ?thesis
    by (simp add: parseInt_def Let_def dw neg sg nohex tw ne)
qed

lemma parseInt_numToString: "parseInt (numToString (int n)) = Some (int n)"
  using parseInt_decimal[OF decimal_is_decimal[of n]] by (simp add: numToString_def decimal_value)

lemma numToString_truthy: "truthy_str (Some (numToString (int n)))"
  using decimal_is_decimal[of n] by (simp add: truthy_str_def numToString_def is_decimal_def)

lemma parseInt_null: "parseInt_value None = None"
  by code_simp

lemma checkRateLimit_first:
  assumes "sharegpt e (rate_key client) = None"
  shows "checkRateLimit e client =
     (Inr (), kv_put (did_get e (rate_key client)) (rate_key client) (numToString (int 1)) (Some 3600))"
  using assms parseInt_null by (simp add: checkRateLimit_def Let_def kv_get_def truthy_str_def)

lemma checkRateLimit_counted:
  assumes "sharegpt e (rate_key client) = Some (numToString (int n))"
  shows "checkRateLimit e client =
     (if 10 \<le> n then (Inl RateLimitExceeded, did_get e (rate_key client))
      else (Inr (), kv_put (did_get e (rate_key client)) (rate_key client)
                     (numToString (int n + 1)) (Some 3600)))"
  using assms numToString_truthy[of n] parseInt_numToString[of n]
  by (simp add: checkRateLimit_def Let_def kv_get_def parseInt_value_def limit_def)

lemma admit_seq_rejected:
  assumes "sharegpt e (rate_key client) = Some (numToString (int n))" and "10 \<le> n"
  shows "admit_seq k e client = replicate k (Inl RateLimitExceeded, Some (numToString (int n)))"
  using assms
proof (induction k arbitrary: e)
  case 0
  show ?case by simp
next
  case (Suc k)
  from Suc.prems have c: "checkRateLimit e client = (Inl RateLimitExceeded, did_get e (rate_key client))"
    by (simp add: checkRateLimit_counted)
  have "sharegpt (did_get e (rate_key client)) (rate_key client) = Some (numToString (int n))"
    using Suc.prems by (simp add: did_get_def)
  from Suc.IH[OF this Suc.prems(2)] c this show ?case
    by simp
qed

lemma admit_seq_counted:
  assumes "sharegpt e (rate_key client) = Some (numToString (int n))" and "n \<le> 10"
  shows "admit_seq k e client =
     map (\<lambda>j. (Inr (), Some (numToString (int j)))) [Suc n..<Suc (min 10 (n + k))] @
     replicate (n + k - 10) (Inl RateLimitExceeded, Some (numToString 10))"
  using assms
proof (induction k arbitrary: e n)
  case 0
  then show ?case by simp
next
  case (Suc k)
  show ?case
  proof (cases "n = 10")
    case True
    with Suc.prems admit_seq_rejected[of e client 10 "Suc k"] show ?thesis
      by simp
  next
    case False
    with Suc.prems have less: "n < 10"
      by simp
    let ?e = "kv_put (did_get e (rate_key client)) (rate_key client) (numToString (int n + 1)) (Some 3600)"
    from Suc.prems less have c: "checkRateLimit e client = (Inr (), ?e)"
      by (simp add: checkRateLimit_counted)
    have i: "int n + 1 = int (Suc n)"
      by simp
    have s: "sharegpt ?e (rate_key client) = Some (numToString (int (Suc n)))"
      unfolding i by (simp add: kv_put_def)
    from less have "Suc n \<le> 10"
      by simp
    from Suc.IH[OF s this] have r: "admit_seq k ?e client =
       map (\<lambda>j. (Inr (), Some (numToString (int j)))) [Suc (Suc n)..<Suc (min 10 (Suc n + k))] @
       replicate (Suc n + k - 10) (Inl RateLimitExceeded, Some (numToString 10))" .
    from less have lt: "Suc n < Suc (min 10 (n + Suc k))"
      by simp
    have eq: "min 10 (n + Suc k) = min 10 (Suc n + k)"
      by simp
    have l: "[Suc n..<Suc (min 10 (n + Suc k))] =
        Suc n # [Suc (Suc n)..<Suc (min 10 (Suc n + k))]"
      using upt_conv_Cons[OF lt] unfolding eq .
    show ?thesis
      unfolding l admit_seq.simps c fst_conv snd_conv r s by simp
  qed
qed

text \<open>
  C8. A client whose counter is absent at the start of the window makes eleven requests
  in a row: the first ten are admitted, and after the \<open>j\<close>-th the store holds the text
  of \<open>j\<close> under the key of the client; the eleventh is rejected with the rate-limit
  error and the counter still reads 10.
\<close>

theorem rate_limit_window:
  assumes "sharegpt e (rate_key client) = None"
  shows "admit_seq 11 e client =
     map (\<lambda>j. (Inr (), Some (numToString (int j)))) [1..<11] @
     [(Inl RateLimitExceeded, Some (numToString 10))]"
proof -
  let ?e = "kv_put (did_get e (rate_key client)) (rate_key client) (numToString (int 1)) (Some 3600)"
  have s: "sharegpt ?e (rate_key client) = Some (numToString (int 1))"
    by (simp add: kv_put_def)
  have r: "admit_seq 10 ?e client =
     map (\<lambda>j. (Inr (), Some (numToString (int j)))) [2..<11] @
     [(Inl RateLimitExceeded, Some (numToString 10))]"
    using admit_seq_counted[OF s, of 10] by (simp add: numeral_2_eq_2)
  have "admit_seq 11 e client = admit_seq (Suc 10) e client"
    by simp
  also have "\<dots> = (Inr (), Some (numToString (int 1))) # admit_seq 10 ?e client"
    unfolding admit_seq.simps checkRateLimit_first[OF assms] fst_conv snd_conv s ..
  also have "\<dots> = (Inr (), Some (numToString (int 1))) #
     (map (\<lambda>j. (Inr (), Some (numToString (int j)))) [2..<11] @
      [(Inl RateLimitExceeded, Some (numToString 10))])"
    by (simp only: r)
  also have "\<dots> = map (\<lambda>j. (Inr (), Some (numToString (int j)))) [1..<11] @
     [(Inl RateLimitExceeded, Some (numToString 10))]"
    by (simp add: upt_conv_Cons numeral_2_eq_2)
  finally show ?thesis .
qed

theorem rate_limit_window_witness:
  "sharegpt empty_env (rate_key (js ''203.0.113.7'')) = None \<and>
   admit_seq 11 empty_env (js ''203.0.113.7'') =
     [(Inr (), Some (js ''1'')), (Inr (), Some (js ''2'')), (Inr (), Some (js ''3'')),
      (Inr (), Some (js ''4'')), (Inr (), Some (js ''5'')), (Inr (), Some (js ''6'')),
      (Inr (), Some (js ''7'')), (Inr (), Some (js ''8'')), (Inr (), Some (js ''9'')),
      (Inr (), Some (js ''10'')), (Inl RateLimitExceeded, Some (js ''10''))]"
proof -
  have a: "sharegpt empty_env (rate_key (js ''203.0.113.7'')) = None"
    by (simp add: empty_env_def)
  have m: "map (\<lambda>j. (Inr () :: js_error + unit, Some (numToString (int j)))) [1..<11] @
     [(Inl RateLimitExceeded, Some (numToString 10))] =
     [(Inr (), Some (js ''1'')), (Inr (), Some (js ''2'')), (Inr (), Some (js ''3'')),
      (Inr (), Some (js ''4'')), (Inr (), Some (js ''5'')), (Inr (), Some (js ''6'')),
      (Inr (), Some (js ''7'')), (Inr (), Some (js ''8'')), (Inr (), Some (js ''9'')),
      (Inr (), Some (js ''10'')), (Inl RateLimitExceeded, Some (js ''10''))]"
    by code_simp
  have t: "admit_seq 11 empty_env (js ''203.0.113.7'') =
     map (\<lambda>j. (Inr (), Some (numToString (int j)))) [1..<11] @
     [(Inl RateLimitExceeded, Some (numToString 10))]"
    by (rule rate_limit_window[OF a])
  show ?thesis
    unfolding t m using a by simp
qed

section \<open>Properties of saving a conversation\<close>

lemma checkRateLimit_cases:
  "checkRateLimit e c =
     (if rate_limited e c then (Inl RateLimitExceeded, did_get e (rate_key c))
      else (Inr (), kv_put (did_get e (rate_key c)) (rate_key c)
                     (numToString (stored_count e c + 1)) (Some 3600)))"
  by (auto simp: checkRateLimit_def rate_limited_def stored_count_def Let_def kv_get_def limit_def
      split: option.splits)

lemma no_underscore: "list_all (\<lambda>c. c \<noteq> 95) (chars @ js ''undefined'')"
  by code_simp

lemma pick_no_underscore: "95 \<notin> set (pick r)"
proof -
  have "set (pick r) \<subseteq> set (chars @ js ''undefined'')"
    by (auto simp: pick_def Let_def nat_less_iff intro!: nth_mem)
  with no_underscore show ?thesis
    by (auto simp: list_all_iff)
qed

lemma candidate_not_rate_key: "candidate rnd a \<noteq> rate_key c"
proof -
  have "95 \<notin> set (candidate rnd a)"
    using pick_no_underscore by (auto simp: candidate_def)
  moreover have "95 \<in> set (rate_key c)"
    by (simp add: rate_key_def js_def)
  ultimately show ?thesis
    by metis
qed

lemma did_get_keeps:
  "sharegpt (did_get e k) = sharegpt e" "parse_calls (did_get e k) = parse_calls e"
  "puts_of k' (did_get e k) = puts_of k' e"
  by (simp_all add: did_get_def parse_calls_def puts_of_def)

lemma generate_loop_keeps:
  "generate_loop rnd e n = (r, e') \<Longrightarrow>
   sharegpt e' = sharegpt e \<and> parse_calls e' = parse_calls e \<and> puts_of k e' = puts_of k e \<and>
   (\<exists>evs. trace e' = evs @ trace e)"
proof (induction rnd e n rule: generate_loop.induct)
  case (1 rnd e attempts)
  show ?case
  proof (cases "attempts < maxAttempts")
    case False
    with "1.prems" show ?thesis
      by (simp add: generate_loop.simps[of rnd e attempts])
  next
    case True
    show ?thesis
    proof (cases "truthy_str (kv_get e (candidate rnd attempts))")
      case False
      with True "1.prems" have "e' = did_get e (candidate rnd attempts)"
        by (simp add: generate_loop.simps[of rnd e attempts])
      then show ?thesis
        by (simp add: did_get_keeps) (simp add: did_get_def)
    next
      case t: True
      with True "1.prems"
      have "generate_loop rnd (did_get e (candidate rnd attempts)) (Suc attempts) = (r, e')"
        by (simp add: generate_loop.simps[of rnd e attempts])
      from "1.IH"[OF True _ this] t show ?thesis
        by (auto simp: did_get_keeps) (simp add: did_get_def)
    qed
  qed
qed

lemma generate_loop_failed:
  "generate_loop rnd e n = (Inl err, e') \<Longrightarrow>
   err = FailedToGenerateUniqueId \<and>
   (\<forall>a. n \<le> a \<and> a < maxAttempts \<longrightarrow> truthy_str (sharegpt e (candidate rnd a)))"
proof (induction rnd e n rule: generate_loop.induct)
  case (1 rnd e attempts)
  show ?case
  proof (cases "attempts < maxAttempts")
    case False
    with "1.prems" show ?thesis
      by (auto simp: generate_loop.simps[of rnd e attempts])
  next
    case True
    show ?thesis
    proof (cases "truthy_str (kv_get e (candidate rnd attempts))")
      case False
      with True "1.prems" show ?thesis
        by (simp add: generate_loop.simps[of rnd e attempts])
    next
      case t: True
      with True "1.prems"
      have "generate_loop rnd (did_get e (candidate rnd attempts)) (Suc attempts) = (Inl err, e')"
        by (simp add: generate_loop.simps[of rnd e attempts])
      from "1.IH"[OF True _ this] t
      have ih: "err = FailedToGenerateUniqueId \<and>
        (\<forall>a. Suc attempts \<le> a \<and> a < maxAttempts \<longrightarrow> truthy_str (sharegpt e (candidate rnd a)))"
        by (simp add: did_get_keeps)
      have "truthy_str (sharegpt e (candidate rnd a))" if "attempts \<le> a" "a < maxAttempts" for a
      proof (cases "a = attempts")
        case True
        with t show ?thesis by (simp add: kv_get_def)
      next
        case False
        with that ih show ?thesis by simp
      qed
      with ih show ?thesis
        by blast
    qed
  qed
qed

lemma all_taken_iff:
  "all_taken rnd e \<longleftrightarrow> (\<forall>a. 0 \<le> a \<and> a < maxAttempts \<longrightarrow> truthy_str (sharegpt e (candidate rnd a)))"
  by (auto simp: all_taken_def list_all_iff maxAttempts_def)

lemma generateUniqueId_cases:
  "(all_taken rnd e \<longrightarrow>
      (\<exists>e'. generateUniqueId rnd e = (Inl FailedToGenerateUniqueId, e') \<and>
            sharegpt e' = sharegpt e \<and> parse_calls e' = parse_calls e \<and>
            puts_of k e' = puts_of k e \<and> (\<exists>evs. trace e' = evs @ trace e))) \<and>
   (\<not> all_taken rnd e \<longrightarrow>
      (\<exists>a e'. generateUniqueId rnd e = (Inr (candidate rnd a), e') \<and>
            sharegpt e' = sharegpt e \<and> parse_calls e' = parse_calls e \<and>
            puts_of k e' = puts_of k e \<and> (\<exists>evs. trace e' = evs @ trace e)))"
proof -
  obtain r e' where g: "generate_loop rnd e 0 = (r, e')"
    by (cases "generate_loop rnd e 0")
  note keep = generate_loop_keeps[OF g, of k]
  show ?thesis
  proof (cases r)
    case (Inl err)
    with g generate_loop_failed[of rnd e 0 err e'] have "err = FailedToGenerateUniqueId" "all_taken rnd e"
      by (simp_all add: all_taken_iff)
    with g Inl keep show ?thesis
      by (simp add: generateUniqueId_def)
  next
    case (Inr i)
    with g generate_loop_returns_candidate[of rnd e 0 i e'] obtain a where a: "i = candidate rnd a"
      by blast
    have "\<not> all_taken rnd e"
    proof
      assume "all_taken rnd e"
      then have "generate_loop rnd e 0 = (Inl FailedToGenerateUniqueId,
          e\<lparr>trace := map (\<lambda>a. Get (candidate rnd a)) (rev [0..<maxAttempts]) @ trace e\<rparr>)"
        using generate_loop_exhausted[of 0 e rnd] by (simp add: all_taken_iff)
      with g Inr show False
        by simp
    qed
    with g Inr a keep show ?thesis
      by (auto simp: generateUniqueId_def)
  qed
qed


lemma all_taken_after_count:
  "all_taken rnd (kv_put (did_get e (rate_key c)) (rate_key c) v t) = all_taken rnd e"
  using candidate_not_rate_key[of rnd _ c]
  by (simp add: all_taken_def kv_put_def did_get_def)

lemma handlePost_unfold:
  "handlePost rt req e =
     (if rate_limited e (clientIP req)
      then (Inl RateLimitExceeded, did_get e (rate_key (clientIP req)))
      else
        (let e1 = kv_put (did_get e (rate_key (clientIP req))) (rate_key (clientIP req))
                    (numToString (stored_count e (clientIP req) + 1)) (Some 3600)
         in case read_body req of
              Inl err \<Rightarrow> (Inl err, e1)
            | Inr v \<Rightarrow>
                if normalized req = [] then (Inr (Text 400 (js ''No content provided'')), e1)
                else if 1048576 < length (normalized req)
                then (Inr (Text 413 (js ''Content too large (max 1MB)'')), e1)
                else
                  (case generateUniqueId (random rt) e1 of
                     (Inl err, e2) \<Rightarrow> (Inl err, e2)
                   | (Inr i, e2) \<Rightarrow>
                       (Inr (Shared i (origin req @ js ''/'' @ i)),
                        kv_put (e2\<lparr>trace := Parse (normalized req) # trace e2\<rparr>) i
                          (stringify rt (conversationData i
                             (parseHtmlContent (rewrite rt) (normalized req)) (normalized req)
                             (now rt) (clientIP req))) None))))"
  by (auto simp: handlePost_def checkRateLimit_cases normalized_def Let_def
      split: sum.splits prod.splits)

lemma counted_env:
  "parse_calls (kv_put (did_get e k) k v (Some 3600)) = parse_calls e"
  "sharegpt (kv_put (did_get e k) k v (Some 3600)) k = Some v"
  "\<forall>k'. k' \<noteq> k \<longrightarrow> sharegpt (kv_put (did_get e k) k v (Some 3600)) k' = sharegpt e k'"
  "puts_of k (kv_put (did_get e k) k v (Some 3600)) = v # puts_of k e"
  "trace (kv_put (did_get e k) k v (Some 3600)) = [Put k v (Some 3600), Get k] @ trace e"
  by (simp_all add: kv_put_def did_get_def parse_calls_def puts_of_def)

lemma handlePost_outcome:
  "(case rejection rt req e of
      Some r \<Rightarrow>
        fst (handlePost rt req e) = r \<and>
        parse_calls (snd (handlePost rt req e)) = parse_calls e \<and>
        (\<forall>k. k \<noteq> rate_key (clientIP req) \<longrightarrow> sharegpt (snd (handlePost rt req e)) k = sharegpt e k)
    | None \<Rightarrow>
        (\<exists>a. fst (handlePost rt req e) =
               Inr (Shared (candidate (random rt) a) (origin req @ js ''/'' @ candidate (random rt) a)) \<and>
             parse_calls (snd (handlePost rt req e)) = normalized req # parse_calls e \<and>
             sharegpt (snd (handlePost rt req e)) (candidate (random rt) a) =
               Some (stringify rt (conversationData (candidate (random rt) a)
                       (parseHtmlContent (rewrite rt) (normalized req)) (normalized req)
                       (now rt) (clientIP req)))))"
proof (cases "rate_limited e (clientIP req)")
  case True
  then show ?thesis
    by (simp add: handlePost_unfold rejection_def did_get_keeps)
next
  case False
  let ?k = "rate_key (clientIP req)"
  let ?e1 = "kv_put (did_get e ?k) ?k (numToString (stored_count e (clientIP req) + 1)) (Some 3600)"
  note e1 = counted_env[where e = e and k = ?k and v = "numToString (stored_count e (clientIP req) + 1)"]
  show ?thesis
  proof (cases "read_body req")
    case (Inl err)
    with False e1 show ?thesis
      by (simp add: handlePost_unfold rejection_def)
  next
    case (Inr v)
    show ?thesis
    proof (cases "normalized req = [] \<or> 1048576 < length (normalized req)")
      case True
      with False Inr e1 show ?thesis
        by (auto simp: handlePost_unfold rejection_def)
    next
      case ok: False
      show ?thesis
      proof (cases "all_taken (random rt) e")
        case True
        then have "all_taken (random rt) ?e1"
          by (simp add: all_taken_after_count)
        with generateUniqueId_cases[of "random rt" ?e1 ?k] obtain e2 where
          "generateUniqueId (random rt) ?e1 = (Inl FailedToGenerateUniqueId, e2)"
          "sharegpt e2 = sharegpt ?e1" "parse_calls e2 = parse_calls ?e1"
          by blast
        with False Inr ok True e1 show ?thesis
          by (simp add: handlePost_unfold rejection_def)
      next
        case free: False
        then have "\<not> all_taken (random rt) ?e1"
          by (simp add: all_taken_after_count)
        with generateUniqueId_cases[of "random rt" ?e1 ?k] obtain a e2 where g:
          "generateUniqueId (random rt) ?e1 = (Inr (candidate (random rt) a), e2)"
          "sharegpt e2 = sharegpt ?e1" "parse_calls e2 = parse_calls ?e1"
          by blast
        have h: "handlePost rt req e =
          (Inr (Shared (candidate (random rt) a) (origin req @ js ''/'' @ candidate (random rt) a)),
           kv_put (e2\<lparr>trace := Parse (normalized req) # trace e2\<rparr>) (candidate (random rt) a)
             (stringify rt (conversationData (candidate (random rt) a)
                (parseHtmlContent (rewrite rt) (normalized req)) (normalized req)
                (now rt) (clientIP req))) None)"
          using False Inr ok g(1) by (simp add: handlePost_unfold)
        have p: "parse_calls (kv_put (e2\<lparr>trace := Parse (normalized req) # trace e2\<rparr>) i x None) =
            normalized req # parse_calls e" for i x
          using g(3) e1(1) by (simp add: kv_put_def parse_calls_def)
        from False Inr ok free have "rejection rt req e = None"
          by (simp add: rejection_def)
        with h p show ?thesis
          by (auto simp: kv_put_def)
      qed
    qed
  qed
qed



lemma text_request_body: "read_body (text_request t) = Inr (Some (JStr t))"
  by (simp add: read_body_def text_request_def contentType_def truthy_str_def js_def)

lemma text_request_client: "clientIP (text_request t) = js ''203.0.113.7''"
  by (simp add: clientIP_def text_request_def truthy_str_def js_def)

lemma normalized_hello: "normalized (text_request (js ''hello'')) = js ''hello''"
  unfolding normalized_def text_request_body by code_simp


lemma fresh_client:
  "sharegpt e (rate_key c) = None \<Longrightarrow> \<not> rate_limited e c \<and> stored_count e c = 0"
  by (simp add: rate_limited_def stored_count_def truthy_str_def parseInt_null)

lemma sample_random: "random sample_runtime = zero_random"
  by (simp add: sample_runtime_def)

lemma zero_candidate: "candidate zero_random a = js ''aaaaaaaa''"
  by code_simp

lemma taken_all: "all_taken zero_random taken_env"
  by code_simp

lemma empty_free: "\<not> all_taken zero_random empty_env"
  by code_simp

lemma hello_size: "js ''hello'' \<noteq> [] \<and> \<not> 1048576 < length (js ''hello'')"
  by (simp add: js_def)

lemma taken_fresh: "sharegpt taken_env (rate_key (js ''203.0.113.7'')) = None"
  by (simp add: taken_env_def rate_key_def js_def)

lemma hello_rejection_taken:
  "rejection sample_runtime (text_request (js ''hello'')) taken_env = Some (Inl FailedToGenerateUniqueId)"
  using fresh_client[OF taken_fresh] taken_all hello_size
  by (simp add: rejection_def text_request_client text_request_body normalized_hello sample_random)

lemma hello_rejection_empty:
  "rejection sample_runtime (text_request (js ''hello'')) empty_env = None"
  using fresh_client[of empty_env "js ''203.0.113.7''"] empty_free hello_size
  by (simp add: rejection_def text_request_client text_request_body normalized_hello sample_random
      empty_env_def)

text \<open>
  C9, as the code has it. A submission is turned away without the parser being called
  exactly in five cases, each with its own outcome: the client is over the limit (the
  rate-limit error); the body cannot be read, because the content type is JSON and the
  body is not JSON or is \<^verbatim>\<open>null\<close> (the error of the runtime); the normalized content is
  empty (status 400); it is longer than 1048576 code units (status 413); or all ten
  candidates of the allocator are taken (the allocation error). Apart from the counter
  of the client the store is then unchanged. Every other submission, however malformed,
  reaches the parser once, with the normalized content, and its record is stored under
  the new identifier.
\<close>

theorem handlePost_rejections:
  "(case rejection rt req e of
      Some r \<Rightarrow>
        fst (handlePost rt req e) = r \<and>
        parse_calls (snd (handlePost rt req e)) = parse_calls e \<and>
        (\<forall>k. k \<noteq> rate_key (clientIP req) \<longrightarrow> sharegpt (snd (handlePost rt req e)) k = sharegpt e k)
    | None \<Rightarrow>
        (\<exists>a. fst (handlePost rt req e) =
               Inr (Shared (candidate (random rt) a) (origin req @ js ''/'' @ candidate (random rt) a)) \<and>
             parse_calls (snd (handlePost rt req e)) = normalized req # parse_calls e \<and>
             sharegpt (snd (handlePost rt req e)) (candidate (random rt) a) =
               Some (stringify rt (conversationData (candidate (random rt) a)
                       (parseHtmlContent (rewrite rt) (normalized req)) (normalized req)
                       (now rt) (clientIP req)))))"
  by (rule handlePost_outcome)

theorem handlePost_rejections_witness:
  "rejection sample_runtime (text_request (js ''hello'')) empty_env = None \<and>
   (\<exists>a. fst (handlePost sample_runtime (text_request (js ''hello'')) empty_env) =
          Inr (Shared (candidate zero_random a)
                 (origin (text_request (js ''hello'')) @ js ''/'' @ candidate zero_random a)) \<and>
        parse_calls (snd (handlePost sample_runtime (text_request (js ''hello'')) empty_env)) =
          [js ''hello'']) \<and>
   rejection sample_runtime (text_request (js ''hello'')) taken_env =
     Some (Inl FailedToGenerateUniqueId) \<and>
   fst (handlePost sample_runtime (text_request (js ''hello'')) taken_env) =
     Inl FailedToGenerateUniqueId"
proof -
  have p: "parse_calls empty_env = []"
    by (simp add: parse_calls_def empty_env_def)
  from handlePost_rejections[of sample_runtime "text_request (js ''hello'')" empty_env]
  have a: "\<exists>a. fst (handlePost sample_runtime (text_request (js ''hello'')) empty_env) =
          Inr (Shared (candidate zero_random a)
                 (origin (text_request (js ''hello'')) @ js ''/'' @ candidate zero_random a)) \<and>
        parse_calls (snd (handlePost sample_runtime (text_request (js ''hello'')) empty_env)) =
          [js ''hello'']"
    unfolding hello_rejection_empty by (auto simp: sample_random normalized_hello p)
  from handlePost_rejections[of sample_runtime "text_request (js ''hello'')" taken_env]
  have b: "fst (handlePost sample_runtime (text_request (js ''hello'')) taken_env) =
     Inl FailedToGenerateUniqueId"
    unfolding hello_rejection_taken by simp
  from a b hello_rejection_empty hello_rejection_taken show ?thesis
    by blast
qed

theorem handlePost_allocation_counterexample:
  "\<not> rate_limited taken_env (clientIP (text_request (js ''hello''))) \<and>
   normalized (text_request (js ''hello'')) \<noteq> [] \<and>
   \<not> 1048576 < length (normalized (text_request (js ''hello''))) \<and>
   fst (handlePost sample_runtime (text_request (js ''hello'')) taken_env) =
     Inl FailedToGenerateUniqueId \<and>
   parse_calls (snd (handlePost sample_runtime (text_request (js ''hello'')) taken_env)) = []"
proof -
  have p: "parse_calls taken_env = []"
    by (simp add: parse_calls_def taken_env_def)
  from handlePost_outcome[of sample_runtime "text_request (js ''hello'')" taken_env]
  have "fst (handlePost sample_runtime (text_request (js ''hello'')) taken_env) =
     Inl FailedToGenerateUniqueId \<and>
   parse_calls (snd (handlePost sample_runtime (text_request (js ''hello'')) taken_env)) = []"
    unfolding hello_rejection_taken by (simp add: p)
  with fresh_client[OF taken_fresh] hello_size show ?thesis
    by (simp add: text_request_client normalized_hello)
qed



section \<open>Properties of the cleaner\<close>

lemma concat_map_empty: "(\<And>x. f x = []) \<Longrightarrow> concat (map f xs) = []"
  by (induction xs) simp_all

lemma needs_no_match:
  assumes "\<forall>c \<in> set s. \<not> P c"
  shows "needs P r \<Longrightarrow> rm r s st = []"
proof (induction r arbitrary: st)
  case (Chr Q)
  with assms show ?case
    by (auto simp: all_set_conv_all_nth)
next
  case (Seq a b)
  show ?case
  proof (cases "needs P a")
    case True
    with Seq.IH(1) show ?thesis
      by simp
  next
    case False
    with Seq.prems have "needs P b"
      by simp
    with Seq.IH(2) have "rm b s x = []" for x
      by simp
    then show ?thesis
      by (simp add: concat_map_empty)
  qed
qed simp_all

lemma needs_matchAt: "\<forall>c \<in> set s. \<not> P c \<Longrightarrow> needs P r \<Longrightarrow> matchAt r s p = None"
  by (simp add: matchAt_def needs_no_match)



lemma find_from_no_match:
  "\<forall>q. matchAt r s q = None \<Longrightarrow> find_from r s p = None"
proof (induction r s p rule: find_from.induct)
  case (1 r s p)
  then show ?case
    by (simp add: find_from.simps[of r s p])
qed

lemma replace_1_needs:
  "needs P r \<Longrightarrow> \<forall>c \<in> set s. \<not> P c \<Longrightarrow> replace_1 r t s = s"
  by (simp add: replace_1_def find_from_no_match needs_matchAt)

















lemma plus_lit: "plus_re (lit [c]) = Seq (Seq (Chr (\<lambda>x. x = c)) Epsilon) (Star (Seq (Chr (\<lambda>x. x = c)) Epsilon))"
  by (simp add: plus_re_def lit_def seqs_def)














lemma space_chars: "is_space 32" "is_space 10"
  by (simp_all add: is_space_def)
















































































section \<open>Properties of the matcher\<close>

text \<open>
  A match never moves backwards and never leaves the subject, so the counter of the
  iterations is exact: a larger counter gives the same matches.
\<close>

lemma star_bound:
  assumes "\<And>x x'. x' \<in> set (f x) \<Longrightarrow> fst x \<le> fst x' \<and> (fst x \<le> length s \<longrightarrow> fst x' \<le> length s)"
  shows "st' \<in> set (star f n st) \<Longrightarrow>
    fst st \<le> fst st' \<and> (fst st \<le> length s \<longrightarrow> fst st' \<le> length s)"
proof (induction n arbitrary: st)
  case 0
  then show ?case by simp
next
  case (Suc n)
  from Suc.prems have "st' = st \<or> (\<exists>x \<in> set (f st). st' \<in> set (star f n x))"
    by auto
  then show ?case
  proof
    assume "st' = st"
    then show ?thesis by simp
  next
    assume "\<exists>x \<in> set (f st). st' \<in> set (star f n x)"
    then obtain x where x: "x \<in> set (f st)" and m: "st' \<in> set (star f n x)"
      by blast
    from assms[OF x] Suc.IH[OF m] show ?thesis
      by auto
  qed
qed

lemma lazy_bound:
  assumes "\<And>x x'. x' \<in> set (f x) \<Longrightarrow> fst x \<le> fst x' \<and> (fst x \<le> length s \<longrightarrow> fst x' \<le> length s)"
  shows "st' \<in> set (lazy f n st) \<Longrightarrow>
    fst st \<le> fst st' \<and> (fst st \<le> length s \<longrightarrow> fst st' \<le> length s)"
proof (induction n arbitrary: st)
  case 0
  then show ?case by simp
next
  case (Suc n)
  from Suc.prems have "st' = st \<or> (\<exists>x \<in> set (f st). st' \<in> set (lazy f n x))"
    by auto
  then show ?case
  proof
    assume "st' = st"
    then show ?thesis by simp
  next
    assume "\<exists>x \<in> set (f st). st' \<in> set (lazy f n x)"
    then obtain x where x: "x \<in> set (f st)" and m: "st' \<in> set (lazy f n x)"
      by blast
    from assms[OF x] Suc.IH[OF m] show ?thesis
      by auto
  qed
qed

lemma rm_bound:
  "st' \<in> set (rm r s st) \<Longrightarrow>
   fst st \<le> fst st' \<and> (fst st \<le> length s \<longrightarrow> fst st' \<le> length s)"
proof (induction r arbitrary: st st')
  case (Seq a b)
  from Seq.prems obtain x where "x \<in> set (rm a s st)" "st' \<in> set (rm b s x)"
    by auto
  with Seq.IH(1)[of x st] Seq.IH(2)[of st' x] show ?case
    by auto
next
  case (Star a)
  from Star.prems have "st' \<in> set (star (rm a s) (length s - fst st) st)"
    by simp
  then show ?case
    by (rule star_bound[where f = "rm a s", rotated]) (rule Star.IH)
next
  case (Lazy a)
  from Lazy.prems have "st' \<in> set (lazy (rm a s) (length s - fst st) st)"
    by simp
  then show ?case
    by (rule lazy_bound[where f = "rm a s", rotated]) (rule Lazy.IH)
next
  case (Look a)
  then show ?case
    by (auto split: list.splits)
qed (auto split: if_splits)

lemma star_counter_step:
  assumes "\<And>x x'. x' \<in> set (f x) \<Longrightarrow> fst x \<le> length s \<Longrightarrow> fst x' \<le> length s"
  shows "fst st \<le> length s \<Longrightarrow> length s - fst st \<le> n \<Longrightarrow> star f (Suc n) st = star f n st"
proof (induction n arbitrary: st)
  case 0
  then have "fst st = length s"
    by simp
  with assms[of _ st] have "filter (\<lambda>st'. fst st < fst st') (f st) = []"
    by (fastforce simp: filter_empty_conv)
  then show ?case
    by simp
next
  case (Suc n)
  have "star f (Suc n) x = star f n x"
    if "x \<in> set (filter (\<lambda>st'. fst st < fst st') (f st))" for x
  proof -
    from that have x: "x \<in> set (f st)" "fst st < fst x"
      by simp_all
    from assms[OF x(1) Suc.prems(1)] have "fst x \<le> length s" .
    moreover from x(2) Suc.prems(2) have "length s - fst x \<le> n"
      by simp
    ultimately show ?thesis
      by (rule Suc.IH)
  qed
  then have "map (star f (Suc n)) (filter (\<lambda>st'. fst st < fst st') (f st)) =
             map (star f n) (filter (\<lambda>st'. fst st < fst st') (f st))"
    by simp
  then show ?case
    by (simp only: star.simps)
qed

lemma star_counter_exact:
  assumes "fst st \<le> length s"
  shows "star (rm a s) (length s - fst st + k) st = star (rm a s) (length s - fst st) st"
proof (induction k)
  case 0
  show ?case by simp
next
  case (Suc k)
  have "star (rm a s) (Suc (length s - fst st + k)) st = star (rm a s) (length s - fst st + k) st"
    by (rule star_counter_step[where s = s]) (use rm_bound assms in auto)
  with Suc show ?case
    by simp
qed

section \<open>Properties of the JSON parser\<close>

lemma skip_ws_length: "length (skip_ws s) \<le> length s"
  by (simp add: skip_ws_def length_dropWhile_le)

lemma skip_ws_Cons: "skip_ws s = c # cs \<Longrightarrow> length cs < length s"
  using skip_ws_length[of s] by simp

lemma string_body_shorter: "string_body cs = Some (t, r) \<Longrightarrow> length r < length cs"
proof (induction cs arbitrary: t r rule: string_body.induct)
  case 1
  then show ?case by simp
next
  case (2 c cs)
  then show ?case
    by (fastforce split: if_splits list.splits option.splits prod.splits)
qed

lemma number_int_shorter: "number_int s = Some (i, r) \<Longrightarrow> length r < length s"
proof (cases s)
  case Nil
  assume "number_int s = Some (i, r)"
  with Nil show ?thesis by (simp add: number_int_def)
next
  case (Cons c cs)
  assume a: "number_int s = Some (i, r)"
  have "length (dropWhile is_digit cs) \<le> length cs"
    by (rule length_dropWhile_le)
  with a Cons show ?thesis
    by (auto simp: number_int_def split: if_splits)
qed

lemma number_frac_shorter: "number_frac s = Some (f, r) \<Longrightarrow> length r \<le> length s"
proof (cases s)
  case Nil
  assume "number_frac s = Some (f, r)"
  with Nil show ?thesis by (simp add: number_frac_def)
next
  case (Cons c cs)
  assume a: "number_frac s = Some (f, r)"
  have "length (dropWhile is_digit cs) \<le> length cs"
    by (rule length_dropWhile_le)
  with a Cons show ?thesis
    by (auto simp: number_frac_def Let_def split: if_splits)
qed

lemma number_exp_shorter: "number_exp s = Some (e, r) \<Longrightarrow> length r \<le> length s"
proof (cases s)
  case Nil
  assume "number_exp s = Some (e, r)"
  with Nil show ?thesis by (simp add: number_exp_def)
next
  case (Cons c cs)
  assume a: "number_exp s = Some (e, r)"
  have "length (dropWhile is_digit x) \<le> length x" for x :: jsstring
    by (rule length_dropWhile_le)
  from this[of cs] this[of "tl cs"] a Cons show ?thesis
    by (cases cs) (auto simp: number_exp_def Let_def split: if_splits)
qed

lemma parse_number_shorter: "parse_number s = Some (x, r) \<Longrightarrow> length r < length s"
proof -
  assume a: "parse_number s = Some (x, r)"
  let ?s1 = "if (case s of [] \<Rightarrow> False | c # _ \<Rightarrow> c = 45) then tl s else s"
  from a obtain i s2 f s3 e where
    "number_int ?s1 = Some (i, s2)" "number_frac s2 = Some (f, s3)" "number_exp s3 = Some (e, r)"
    by (auto simp: parse_number_def Let_def split: option.splits prod.splits)
  from number_int_shorter[OF this(1)] number_frac_shorter[OF this(2)] number_exp_shorter[OF this(3)]
  have "length r < length ?s1"
    by simp
  also have "length ?s1 \<le> length s"
    by simp
  finally show ?thesis .
qed


text \<open>
  The bound on nested calls is never the reason for a failure of the parser: a parse
  that succeeds under some bound succeeds, with the same result, under every bound of
  at least twice the number of characters read; \<open>JSON_parse\<close> starts above that.
\<close>

lemma fuel_okD:
  assumes "fuel_ok m"
  shows "parse_value m s = Some (v, r) \<Longrightarrow> length r < length s"
    and "parse_value m s = Some (v, r) \<Longrightarrow> 2 * (length s - length r) \<le> n \<Longrightarrow>
         parse_value n s = Some (v, r)"
    and "parse_elements m s = Some (vs, r) \<Longrightarrow> length r < length s"
    and "parse_elements m s = Some (vs, r) \<Longrightarrow> 2 * (length s - length r) + 1 \<le> n \<Longrightarrow>
         parse_elements n s = Some (vs, r)"
    and "parse_members m s = Some (ms, r) \<Longrightarrow> length r < length s"
    and "parse_members m s = Some (ms, r) \<Longrightarrow> 2 * (length s - length r) + 1 \<le> n \<Longrightarrow>
         parse_members n s = Some (ms, r)"
  using assms unfolding fuel_ok_def by blast+

lemma fuel_ok_value:
  assumes "fuel_ok m" and "parse_value (Suc m) s = Some (v, r)"
  shows "length r < length s \<and>
     (\<forall>n. 2 * (length s - length r) \<le> n \<longrightarrow> parse_value n s = Some (v, r))"
proof -
  from assms(2) obtain c cs where w: "skip_ws s = c # cs"
    by (cases "skip_ws s") simp_all
  note ls = skip_ws_Cons[OF w]
  show ?thesis
  proof (cases "c = 123")
    case True
    from assms(2) w True obtain d ds where w2: "skip_ws cs = d # ds"
      by (cases "skip_ws cs") simp_all
    note ld = skip_ws_Cons[OF w2]
    show ?thesis
    proof (cases "d = 125")
      case d: True
      with assms(2) w True w2 have e: "v = JObj []" "r = ds"
        by simp_all
      have "parse_value n s = Some (v, r)" if "2 * (length s - length r) \<le> n" for n
      proof -
        from that e ld ls obtain k where "n = Suc k"
          by (cases n) simp_all
        with w True w2 d e show ?thesis
          by simp
      qed
      with e ld ls show ?thesis
        by simp
    next
      case d: False
      with assms(2) w True w2
      have "map_option (\<lambda>(ms, r). (JObj ms, r)) (parse_members m cs) = Some (v, r)"
        by simp
      then obtain ms where m: "parse_members m cs = Some (ms, r)" "v = JObj ms"
        by (cases "parse_members m cs") auto
      note i = fuel_okD(5,6)[OF assms(1) m(1)]
      have "parse_value n s = Some (v, r)" if "2 * (length s - length r) \<le> n" for n
      proof -
        from that i(1) ls obtain k where k: "n = Suc k"
          by (cases n) simp_all
        with that i(1) ls have "2 * (length cs - length r) + 1 \<le> k"
          by simp
        from i(2)[OF this] k w True w2 d m(2) show ?thesis
          by simp
      qed
      with i(1) ls show ?thesis
        by simp
    qed
  next
    case nobj: False
    show ?thesis
    proof (cases "c = 91")
      case True
      from assms(2) w nobj True obtain d ds where w2: "skip_ws cs = d # ds"
        by (cases "skip_ws cs") simp_all
      note ld = skip_ws_Cons[OF w2]
      show ?thesis
      proof (cases "d = 93")
        case d: True
        with assms(2) w nobj True w2 have e: "v = JArr []" "r = ds"
          by simp_all
        have "parse_value n s = Some (v, r)" if "2 * (length s - length r) \<le> n" for n
        proof -
          from that e ld ls obtain k where "n = Suc k"
            by (cases n) simp_all
          with w nobj True w2 d e show ?thesis
            by simp
        qed
        with e ld ls show ?thesis
          by simp
      next
        case d: False
        with assms(2) w nobj True w2
        have "map_option (\<lambda>(vs, r). (JArr vs, r)) (parse_elements m cs) = Some (v, r)"
          by simp
        then obtain vs where m: "parse_elements m cs = Some (vs, r)" "v = JArr vs"
          by (cases "parse_elements m cs") auto
        note i = fuel_okD(3,4)[OF assms(1) m(1)]
        have "parse_value n s = Some (v, r)" if "2 * (length s - length r) \<le> n" for n
        proof -
          from that i(1) ls obtain k where k: "n = Suc k"
            by (cases n) simp_all
          with that i(1) ls have "2 * (length cs - length r) + 1 \<le> k"
            by simp
          from i(2)[OF this] k w nobj True w2 d m(2) show ?thesis
            by simp
        qed
        with i(1) ls show ?thesis
          by simp
      qed
    next
      case narr: False
      let ?atom = "if c = 34 then map_option (\<lambda>(t, r). (JStr t, r)) (string_body cs)
          else if starts_with (c # cs) (js ''true'') then Some (JBool True, drop 4 (c # cs))
          else if starts_with (c # cs) (js ''false'') then Some (JBool False, drop 5 (c # cs))
          else if starts_with (c # cs) (js ''null'') then Some (JNull, drop 4 (c # cs))
          else map_option (\<lambda>(x, r). (JNum x, r)) (parse_number (c # cs))"
      have u: "parse_value (Suc k) s = ?atom" for k
        using w nobj narr by simp
      from assms(2) u[of m] have a: "?atom = Some (v, r)"
        by simp
      have "length r < length (c # cs)"
      proof (cases "c = 34")
        case True
        with a obtain t where "string_body cs = Some (t, r)"
          by (cases "string_body cs") auto
        from string_body_shorter[OF this] show ?thesis
          by simp
      next
        case q: False
        show ?thesis
        proof (cases "starts_with (c # cs) (js ''true'') \<or> starts_with (c # cs) (js ''false'') \<or>
            starts_with (c # cs) (js ''null'')")
          case True
          with a q show ?thesis
            by (auto split: if_splits)
        next
          case False
          with a q obtain x where "parse_number (c # cs) = Some (x, r)"
            by (cases "parse_number (c # cs)") auto
          from parse_number_shorter[OF this] show ?thesis .
        qed
      qed
      with ls have l: "length r < length s"
        by simp
      have "parse_value n s = Some (v, r)" if "2 * (length s - length r) \<le> n" for n
      proof -
        from that l obtain k where "n = Suc k"
          by (cases n) simp_all
        with u[of k] a show ?thesis
          by simp
      qed
      with l show ?thesis
        by simp
    qed
  qed
qed


lemma fuel_ok_elements:
  assumes "fuel_ok m" and "parse_elements (Suc m) s = Some (vs, r)"
  shows "length r < length s \<and>
     (\<forall>n. 2 * (length s - length r) + 1 \<le> n \<longrightarrow> parse_elements n s = Some (vs, r))"
proof -
  from assms(2) obtain v r1 where v: "parse_value m s = Some (v, r1)"
    by (cases "parse_value m s") auto
  note iv = fuel_okD(1,2)[OF assms(1) v]
  from assms(2) v obtain c cs where w: "skip_ws r1 = c # cs"
    by (cases "skip_ws r1") simp_all
  note lc = skip_ws_Cons[OF w]
  show ?thesis
  proof (cases "c = 44")
    case True
    with assms(2) v w have "map_option (\<lambda>(vs, r'). (v # vs, r')) (parse_elements m cs) = Some (vs, r)"
      by simp
    then obtain vs' where e: "parse_elements m cs = Some (vs', r)" "vs = v # vs'"
      by (cases "parse_elements m cs") auto
    note ie = fuel_okD(3,4)[OF assms(1) e(1)]
    have "parse_elements n s = Some (vs, r)" if "2 * (length s - length r) + 1 \<le> n" for n
    proof -
      from that obtain k where k: "n = Suc k"
        by (cases n) simp_all
      with that iv(1) ie(1) lc have "2 * (length s - length r1) \<le> k"
        and "2 * (length cs - length r) + 1 \<le> k"
        by simp_all
      from iv(2)[OF this(1)] ie(2)[OF this(2)] k w True e(2) show ?thesis
        by simp
    qed
    with iv(1) ie(1) lc show ?thesis
      by simp
  next
    case False
    with assms(2) v w have e: "c = 93" "vs = [v]" "r = cs"
      by (simp_all split: if_splits)
    have "parse_elements n s = Some (vs, r)" if "2 * (length s - length r) + 1 \<le> n" for n
    proof -
      from that obtain k where k: "n = Suc k"
        by (cases n) simp_all
      with that iv(1) lc e have "2 * (length s - length r1) \<le> k"
        by simp
      from iv(2)[OF this] k w e show ?thesis
        by simp
    qed
    with iv(1) lc e show ?thesis
      by simp
  qed
qed

lemma fuel_ok_members:
  assumes "fuel_ok m" and "parse_members (Suc m) s = Some (ms, r)"
  shows "length r < length s \<and>
     (\<forall>n. 2 * (length s - length r) + 1 \<le> n \<longrightarrow> parse_members n s = Some (ms, r))"
proof -
  from assms(2) obtain q qs where w0: "skip_ws s = q # qs"
    by (cases "skip_ws s") simp_all
  note l0 = skip_ws_Cons[OF w0]
  from assms(2) w0 have q: "q = 34"
    by (simp split: if_splits)
  from assms(2) w0 q obtain k r1 where sb: "string_body qs = Some (k, r1)"
    by (cases "string_body qs") auto
  note l1 = string_body_shorter[OF sb]
  from assms(2) w0 q sb obtain c cs where w1: "skip_ws r1 = c # cs"
    by (cases "skip_ws r1") simp_all
  note l2 = skip_ws_Cons[OF w1]
  from assms(2) w0 q sb w1 have c: "c = 58"
    by (simp split: if_splits)
  from assms(2) w0 q sb w1 c obtain v r2 where v: "parse_value m cs = Some (v, r2)"
    by (cases "parse_value m cs") auto
  note iv = fuel_okD(1,2)[OF assms(1) v]
  from assms(2) w0 q sb w1 c v obtain d ds where w2: "skip_ws r2 = d # ds"
    by (cases "skip_ws r2") simp_all
  note l3 = skip_ws_Cons[OF w2]
  show ?thesis
  proof (cases "d = 44")
    case True
    with assms(2) w0 q sb w1 c v w2
    have "map_option (\<lambda>(ms, r'). ((k, v) # ms, r')) (parse_members m ds) = Some (ms, r)"
      by simp
    then obtain ms' where e: "parse_members m ds = Some (ms', r)" "ms = (k, v) # ms'"
      by (cases "parse_members m ds") auto
    note ie = fuel_okD(5,6)[OF assms(1) e(1)]
    have "parse_members n s = Some (ms, r)" if "2 * (length s - length r) + 1 \<le> n" for n
    proof -
      from that obtain j where j: "n = Suc j"
        by (cases n) simp_all
      with that iv(1) ie(1) l0 l1 l2 l3 have "2 * (length cs - length r2) \<le> j"
        and "2 * (length ds - length r) + 1 \<le> j"
        by simp_all
      from iv(2)[OF this(1)] ie(2)[OF this(2)] j w0 q sb w1 c w2 True e(2) show ?thesis
        by simp
    qed
    with iv(1) ie(1) l0 l1 l2 l3 show ?thesis
      by simp
  next
    case False
    with assms(2) w0 q sb w1 c v w2 have e: "d = 125" "ms = [(k, v)]" "r = ds"
      by (simp_all split: if_splits)
    have "parse_members n s = Some (ms, r)" if "2 * (length s - length r) + 1 \<le> n" for n
    proof -
      from that obtain j where j: "n = Suc j"
        by (cases n) simp_all
      with that iv(1) l0 l1 l2 l3 e have "2 * (length cs - length r2) \<le> j"
        by simp
      from iv(2)[OF this] j w0 q sb w1 c w2 e show ?thesis
        by simp
    qed
    with iv(1) l0 l1 l2 l3 e show ?thesis
      by simp
  qed
qed

lemma fuel_ok_all: "fuel_ok m"
proof (induction m)
  case 0
  show ?case
    by (simp add: fuel_ok_def)
next
  case (Suc m)
  from fuel_ok_value[OF Suc] fuel_ok_elements[OF Suc] fuel_ok_members[OF Suc] show ?case
    unfolding fuel_ok_def by blast
qed

lemma JSON_parse_bound:
  assumes "parse_value m s = Some (v, r)"
  shows "parse_value (2 * length s + 2) s = Some (v, r)"
proof -
  from fuel_okD(1)[OF fuel_ok_all assms] have "2 * (length s - length r) \<le> 2 * length s + 2"
    by simp
  from fuel_okD(2)[OF fuel_ok_all assms this] show ?thesis .
qed

lemma JSON_parse_None:
  assumes "JSON_parse s = None" and "parse_value m s = Some (v, r)"
  shows "skip_ws r \<noteq> []"
  using assms(1) JSON_parse_bound[OF assms(2)] by (simp add: JSON_parse_def split: if_splits)


lemma lazy_counter_step:
  assumes "\<And>x x'. x' \<in> set (f x) \<Longrightarrow> fst x \<le> length s \<Longrightarrow> fst x' \<le> length s"
  shows "fst st \<le> length s \<Longrightarrow> length s - fst st \<le> n \<Longrightarrow> lazy f (Suc n) st = lazy f n st"
proof (induction n arbitrary: st)
  case 0
  then have "fst st = length s"
    by simp
  with assms[of _ st] have "filter (\<lambda>st'. fst st < fst st') (f st) = []"
    by (fastforce simp: filter_empty_conv)
  then show ?case
    by simp
next
  case (Suc n)
  have "lazy f (Suc n) x = lazy f n x"
    if "x \<in> set (filter (\<lambda>st'. fst st < fst st') (f st))" for x
  proof -
    from that have x: "x \<in> set (f st)" "fst st < fst x"
      by simp_all
    from assms[OF x(1) Suc.prems(1)] have "fst x \<le> length s" .
    moreover from x(2) Suc.prems(2) have "length s - fst x \<le> n"
      by simp
    ultimately show ?thesis
      by (rule Suc.IH)
  qed
  then have "map (lazy f (Suc n)) (filter (\<lambda>st'. fst st < fst st') (f st)) =
             map (lazy f n) (filter (\<lambda>st'. fst st < fst st') (f st))"
    by simp
  then show ?case
    by (simp only: lazy.simps)
qed

lemma lazy_counter_exact:
  assumes "fst st \<le> length s"
  shows "lazy (rm a s) (length s - fst st + k) st = lazy (rm a s) (length s - fst st) st"
proof (induction k)
  case 0
  show ?case by simp
next
  case (Suc k)
  have "lazy (rm a s) (Suc (length s - fst st + k)) st = lazy (rm a s) (length s - fst st + k) st"
    by (rule lazy_counter_step[where s = s]) (use rm_bound assms in auto)
  with Suc show ?case
    by simp
qed

end
